theory Spec2Isabelle
  imports Main "HOL-Library.Word"
begin

unbundle bit_operations_syntax

section \<open>The mount command of u-root: cmds/core/mount/mount.go\<close>

text \<open>
  The command is one Go file. Its \<open>main\<close> reads mount tables, parses the command line,
  walks the \<open>-o\<close> option tokens, adds the bits of the boolean switches and calls one of two
  mount primitives. Everything outside the file (the file system, the flag package, the
  loop-device package, the mount package, the option table \<open>opts\<close>) is a parameter of the
  model, collected in the record \<open>env\<close>. Every call that leaves the program is appended to
  a trace of events, and the answer of the outside world to a call may depend on the trace so
  far: a second search for a free loop device can return another device than the first.
\<close>

subsection \<open>Data\<close>

text \<open>Go's \<open>uintptr\<close> on a 64-bit Linux target; \<open>|=\<close> is bitwise OR.\<close>

type_synonym uintptr = "64 word"

text \<open>A Go \<open>error\<close> value, with the text its \<open>Error()\<close> method returns.\<close>

datatype error = Error (errText: string)

text \<open>
  The flag variables of lines 42-58 as they stand after \<open>flag.Parse()\<close>, together with
  \<open>flag.Args()\<close>. The field \<open>options\<close> is the token slice that \<open>mountOptions.Set\<close> has
  accumulated over all \<open>-o\<close> switches.
\<close>

record flagValues =
  ro :: bool
  fsType :: string
  bind :: bool
  rbind :: bool
  makeShared :: bool
  makeSlave :: bool
  makePrivate :: bool
  makeUnbindable :: bool
  makeRShared :: bool
  makeRSlave :: bool
  makeRPrivate :: bool
  makeRUnbindable :: bool
  options :: "string list"
  args :: "string list"

text \<open>
  The calls that leave the program, in the order they are made: \<open>ioutil.ReadFile\<close>,
  \<open>fmt.Print\<close>, \<open>flag.Usage\<close>, \<open>loop.FindDevice\<close>, \<open>loop.SetFile\<close>
  (loop device, backing file), \<open>mount.TryMount\<close> (device, path, data, flags),
  \<open>mount.Mount\<close> (device, path, type, data, flags) and the message handed to the logger
  by \<open>log.Printf\<close>, \<open>log.Fatal\<close> and \<open>log.Fatalf\<close>.
\<close>

datatype event =
    ReadFileCall string
  | Print string
  | Usage
  | FindDeviceCall
  | SetFileCall string string
  | TryMountCall string string string uintptr
  | MountCall string string string string uintptr
  | LogPrint string

text \<open>
  The outside world. Each function that stands for a call takes the trace at the time of
  the call first. A read gives the contents of the file or an error; \<open>FindDevice\<close> gives
  a loop device or an error; \<open>SetFile\<close> and the two mount primitives give \<open>None\<close> for a
  nil error (the first result of a mount primitive is discarded by \<open>main\<close>). \<open>Parse\<close>
  is \<open>flag.Parse\<close> on the command line: \<open>Inl code\<close> when the flag package itself ends
  the process with that status (a malformed switch, \<open>-h\<close>; what it prints then is not
  recorded), the flag variables otherwise. \<open>opts\<close> is the option table of the package,
  declared in another file of the command.
\<close>

record env =
  ReadFile :: "event list \<Rightarrow> string \<Rightarrow> error + string"
  Parse :: "string list \<Rightarrow> nat + flagValues"
  FindDevice :: "event list \<Rightarrow> error + string"
  SetFile :: "event list \<Rightarrow> string \<Rightarrow> string \<Rightarrow> error option"
  TryMount :: "event list \<Rightarrow> string \<Rightarrow> string \<Rightarrow> string \<Rightarrow> uintptr \<Rightarrow> error option"
  Mount :: "event list \<Rightarrow> string \<Rightarrow> string \<Rightarrow> string \<Rightarrow> string \<Rightarrow> uintptr \<Rightarrow> error option"
  opts :: "string \<rightharpoonup> uintptr"

text \<open>The mount flags of \<open>golang.org/x/sys/unix\<close> on Linux.\<close>

definition MS_RDONLY :: uintptr where "MS_RDONLY = 0x1"
definition MS_BIND :: uintptr where "MS_BIND = 0x1000"
definition MS_REC :: uintptr where "MS_REC = 0x4000"
definition MS_UNBINDABLE :: uintptr where "MS_UNBINDABLE = 0x20000"
definition MS_PRIVATE :: uintptr where "MS_PRIVATE = 0x40000"
definition MS_SLAVE :: uintptr where "MS_SLAVE = 0x80000"
definition MS_SHARED :: uintptr where "MS_SHARED = 0x100000"

subsection \<open>The string functions of the Go library that the file calls\<close>

text \<open>
  Strings are byte lists. \<open>Split s c\<close> is \<open>strings.Split\<close> with a separator of one
  byte: the pieces between the separators, one piece (the empty one) for the empty string.
\<close>

fun Split :: "string \<Rightarrow> char \<Rightarrow> string list" where
  "Split [] c = [[]]"
| "Split (x # xs) c =
     (if x = c then [] # Split xs c
      else (case Split xs c of [] \<Rightarrow> [[x]] | w # ws \<Rightarrow> (x # w) # ws))"

text \<open>\<open>strings.Join\<close>.\<close>

fun Join :: "string list \<Rightarrow> string \<Rightarrow> string" where
  "Join [] sep = []"
| "Join [x] sep = x"
| "Join (x # y # ys) sep = x @ sep @ Join (y # ys) sep"

text \<open>
  \<open>strings.Fields\<close>: the maximal runs of bytes that are not white space, none for a
  string of white space only. White space is the ASCII set of the library (tab, line feed,
  vertical tab, form feed, carriage return, space). On ASCII text, such as the kernel writes
  to \<open>/proc/filesystems\<close>, that is all of \<open>unicode.IsSpace\<close>; the white space
  outside ASCII, which the library also splits at, is not modelled. \<open>fieldsFrom w cs\<close>
  scans \<open>cs\<close> with the field \<open>w\<close> begun so far.
\<close>

definition isSpace :: "char \<Rightarrow> bool" where
  "isSpace c = (c \<in> set [CHR 0x09, CHR 0x0A, CHR 0x0B, CHR 0x0C, CHR 0x0D, CHR 0x20])"

fun fieldsFrom :: "string \<Rightarrow> string \<Rightarrow> string list" where
  "fieldsFrom w [] = (if w = [] then [] else [w])"
| "fieldsFrom w (c # cs) =
     (if isSpace c then (if w = [] then fieldsFrom [] cs else w # fieldsFrom [] cs)
      else fieldsFrom (w @ [c]) cs)"

definition Fields :: "string \<Rightarrow> string list" where
  "Fields s = fieldsFrom [] s"

subsection \<open>loopSetup (lines 64-73)\<close>

definition loopSetup :: "env \<Rightarrow> event list \<Rightarrow> string \<Rightarrow> event list \<times> (error + string)" where
  "loopSetup e h filename =
     (case FindDevice e h of
        Inl err \<Rightarrow> (h @ [FindDeviceCall], Inl err)
      | Inr loopDevice \<Rightarrow>
          (case SetFile e (h @ [FindDeviceCall]) loopDevice filename of
             Some err \<Rightarrow> (h @ [FindDeviceCall, SetFileCall loopDevice filename], Inl err)
           | None \<Rightarrow> (h @ [FindDeviceCall, SetFileCall loopDevice filename], Inr loopDevice)))"

subsection \<open>getSupportedFilesystem and informIfUnknownFS (lines 76-108)\<close>

text \<open>
  Indexing a Go slice: outside the bounds the run-time system panics (\<open>None\<close>), and the
  process ends with status 2.
\<close>

definition index :: "'a list \<Rightarrow> int \<Rightarrow> 'a option" where
  "index xs i = (if 0 \<le> i \<and> i < int (length xs) then Some (xs ! nat i) else None)"

text \<open>
  The loop of lines 84-94 over the lines of the listing, with the two variables it updates:
  \<open>returnValue\<close> and \<open>known\<close>. \<open>None\<close> is a panic of \<open>n[last]\<close>.
\<close>

fun scanLines ::
  "string \<Rightarrow> string list \<Rightarrow> string list \<times> bool \<Rightarrow> (string list \<times> bool) option" where
  "scanLines originFS [] (returnValue, known) = Some (returnValue, known)"
| "scanLines originFS (f # fs) (returnValue, known) =
     (let n = Fields f;
          last = int (length n) - 1
      in if last < 0 then scanLines originFS fs (returnValue, known)
         else (case index n last of
                 None \<Rightarrow> None
               | Some x \<Rightarrow>
                   scanLines originFS fs
                     (returnValue @ [x], (if x = originFS then True else known))))"

text \<open>
  The three results of the Go function, with \<open>None\<close> for a nil error; the whole is
  \<open>None\<close> when the function panics.
\<close>

definition getSupportedFilesystem ::
  "env \<Rightarrow> event list \<Rightarrow> string \<Rightarrow>
   event list \<times> (string list \<times> bool \<times> error option) option" where
  "getSupportedFilesystem e h originFS =
     (case ReadFile e h ''/proc/filesystems'' of
        Inl err \<Rightarrow> (h @ [ReadFileCall ''/proc/filesystems''], Some ([], False, Some err))
      | Inr fs \<Rightarrow>
          (case scanLines originFS (Split fs (CHR 0x0A)) ([], False) of
             None \<Rightarrow> (h @ [ReadFileCall ''/proc/filesystems''], None)
           | Some (returnValue, known) \<Rightarrow>
               (h @ [ReadFileCall ''/proc/filesystems''], Some (returnValue, known, None))))"

text \<open>
  The message of line 106: \<open>%s\<close> prints the string, \<open>%v\<close> prints a string slice as its
  elements between brackets, separated by one space.
\<close>

definition hint :: "string \<Rightarrow> string list \<Rightarrow> string" where
  "hint originFS knownFS =
     ''Hint: unknown filesystem '' @ originFS @ ''. Known are: ['' @ Join knownFS '' '' @ '']''"

text \<open>The result is the trace, and whether the function returned (\<open>False\<close>: it panicked).\<close>

definition informIfUnknownFS :: "env \<Rightarrow> event list \<Rightarrow> string \<Rightarrow> event list \<times> bool" where
  "informIfUnknownFS e h originFS =
     (case getSupportedFilesystem e h originFS of
        (h1, None) \<Rightarrow> (h1, False)
      | (h1, Some (knownFS, known, Some err)) \<Rightarrow> (h1, True)
      | (h1, Some (knownFS, known, None)) \<Rightarrow>
          (if \<not> known then (h1 @ [LogPrint (hint originFS knownFS)], True) else (h1, True)))"

subsection \<open>main (lines 110-180)\<close>

text \<open>The slice \<open>n\<close> of line 111.\<close>

definition mountTables :: "string list" where
  "mountTables = [''/proc/self/mounts'', ''/proc/mounts'', ''/etc/mtab'']"

text \<open>
  Lines 112-117: the mount tables are tried in order; the first that can be read is printed
  and the process exits with status 0 (\<open>True\<close>).
\<close>

fun listMounts :: "env \<Rightarrow> event list \<Rightarrow> string list \<Rightarrow> event list \<times> bool" where
  "listMounts e h [] = (h, False)"
| "listMounts e h (p # ps) =
     (case ReadFile e h p of
        Inr b \<Rightarrow> (h @ [ReadFileCall p, Print b], True)
      | Inl err \<Rightarrow> listMounts e (h @ [ReadFileCall p]) ps)"

text \<open>
  Lines 133-147: the loop over the option tokens, on the variables \<open>dev\<close>, \<open>flags\<close> and
  \<open>data\<close>. \<open>None\<close> is the \<open>log.Fatal\<close> of line 138, which ends the process with
  status 1.
\<close>

fun tokenLoop ::
  "env \<Rightarrow> string list \<Rightarrow> event list \<times> string \<times> uintptr \<times> string list \<Rightarrow>
   event list \<times> (string \<times> uintptr \<times> string list) option" where
  "tokenLoop e [] (h, dev, flags, data) = (h, Some (dev, flags, data))"
| "tokenLoop e (option # rest) (h, dev, flags, data) =
     (if option = ''loop'' then
        (case loopSetup e h dev of
           (h1, Inl err) \<Rightarrow>
             (h1 @ [LogPrint (''Error setting loop device:'' @ errText err)], None)
         | (h1, Inr dev1) \<Rightarrow> tokenLoop e rest (h1, dev1, flags, data))
      else
        (case opts e option of
           Some f \<Rightarrow> tokenLoop e rest (h, dev, flags OR f, data)
         | None \<Rightarrow> tokenLoop e rest (h, dev, flags, data @ [option])))"

text \<open>Lines 148-168: the bits of the boolean switches, one \<open>if\<close> after the other.\<close>

definition switchFlags :: "flagValues \<Rightarrow> uintptr \<Rightarrow> uintptr" where
  "switchFlags v flags0 =
     (let flags1 = (if ro v then flags0 OR MS_RDONLY else flags0);
          flags2 = (if bind v \<or> rbind v then flags1 OR MS_BIND else flags1);
          flags3 = (if makeShared v \<or> makeRShared v then flags2 OR MS_SHARED else flags2);
          flags4 = (if makeSlave v \<or> makeRSlave v then flags3 OR MS_SLAVE else flags3);
          flags5 = (if makePrivate v \<or> makeRPrivate v then flags4 OR MS_PRIVATE else flags4);
          flags6 = (if makeUnbindable v \<or> makeRUnbindable v
                    then flags5 OR MS_UNBINDABLE else flags5)
      in if rbind v \<or> makeRShared v \<or> makeRSlave v \<or> makeRPrivate v \<or> makeRUnbindable v
         then flags6 OR (MS_BIND OR MS_REC) else flags6)"

text \<open>
  Lines 169-179: the two mount paths. The result is the trace and the exit status: 0 when
  \<open>main\<close> returns, 1 from \<open>log.Fatalf\<close> and \<open>os.Exit(1)\<close>, 2 after a panic.
\<close>

definition dispatch ::
  "env \<Rightarrow> flagValues \<Rightarrow> event list \<Rightarrow> string \<Rightarrow> string \<Rightarrow> string list \<Rightarrow> uintptr \<Rightarrow>
   event list \<times> nat" where
  "dispatch e v h dev path data flags =
     (if fsType v = '''' then
        (case TryMount e h dev path (Join data '','') flags of
           Some err \<Rightarrow>
             (h @ [TryMountCall dev path (Join data '','') flags, LogPrint (errText err)], 1)
         | None \<Rightarrow> (h @ [TryMountCall dev path (Join data '','') flags], 0))
      else
        (case Mount e h dev path (fsType v) (Join data '','') flags of
           Some err \<Rightarrow>
             (case informIfUnknownFS e
                     (h @ [MountCall dev path (fsType v) (Join data '','') flags,
                           LogPrint (errText err)])
                     (fsType v) of
                (h1, True) \<Rightarrow> (h1, 1)
              | (h1, False) \<Rightarrow> (h1, 2))
         | None \<Rightarrow> (h @ [MountCall dev path (fsType v) (Join data '','') flags], 0)))"

text \<open>
  The whole of \<open>main\<close>. Line 119 is \<open>Parse\<close>; lines 124-129 read the first two
  arguments.
\<close>

definition main :: "env \<Rightarrow> string list \<Rightarrow> event list \<times> nat" where
  "main e argv =
     (case listMounts e [] mountTables of
        (h, True) \<Rightarrow> (h, 0)
      | (h, False) \<Rightarrow>
          (case Parse e argv of
             Inl code \<Rightarrow> (h, code)
           | Inr v \<Rightarrow>
               if length (args v) < 2 then (h @ [Usage], 1)
               else
                 (let a = args v in
                  case index a 0 of
                    None \<Rightarrow> (h, 2)
                  | Some dev \<Rightarrow>
                      (case (if length a > 1 then index a 1 else Some '''') of
                         None \<Rightarrow> (h, 2)
                       | Some path \<Rightarrow>
                           (case tokenLoop e (options v) (h, dev, 0, []) of
                              (h1, None) \<Rightarrow> (h1, 1)
                            | (h1, Some (dev1, flags, data)) \<Rightarrow>
                                dispatch e v h1 dev1 path data (switchFlags v flags))))))"

subsection \<open>Reading a trace\<close>

text \<open>
  The mount attempts recorded in a trace, as the parameters handed to the mount primitive:
  the type is \<open>None\<close> for \<open>mount.TryMount\<close>, which guesses it.
\<close>

record mountRequest =
  device :: string
  path :: string
  filesystemType :: "string option"
  dataOptions :: string
  flagsBitmask :: uintptr

fun requests :: "event list \<Rightarrow> mountRequest list" where
  "requests [] = []"
| "requests (TryMountCall dev p d f # evs) =
     \<lparr>device = dev, path = p, filesystemType = None, dataOptions = d, flagsBitmask = f\<rparr>
       # requests evs"
| "requests (MountCall dev p t d f # evs) =
     \<lparr>device = dev, path = p, filesystemType = Some t, dataOptions = d, flagsBitmask = f\<rparr>
       # requests evs"
| "requests (ev # evs) = requests evs"

text \<open>
  The last field of every line that has one, in line order: what the supported-filesystems
  listing is said to contribute.
\<close>

definition lastFields :: "string list \<Rightarrow> string list" where
  "lastFields ls = map last (filter (\<lambda>n. n \<noteq> []) (map Fields ls))"

text \<open>The bitwise OR of a list of masks.\<close>

definition orAll :: "uintptr list \<Rightarrow> uintptr" where
  "orAll fs = foldr (OR) fs 0"

text \<open>
  What the option tokens are said to yield: the tokens that are neither \<open>loop\<close> nor in
  the table, in their order, and the OR of the table entries of the others. \<open>loop\<close> is
  taken out first, as line 135 does before the table is looked at.
\<close>

definition unknownTokens :: "env \<Rightarrow> string list \<Rightarrow> string list" where
  "unknownTokens e os = filter (\<lambda>t. t \<noteq> ''loop'' \<and> opts e t = None) os"

definition knownBits :: "env \<Rightarrow> string list \<Rightarrow> uintptr" where
  "knownBits e os = orAll (List.map_filter (opts e) (filter (\<lambda>t. t \<noteq> ''loop'') os))"

subsection \<open>A small world to run the program in\<close>

text \<open>
  A listing of two types with a blank line between them, in the layout of
  \<open>/proc/filesystems\<close>: a tab before the name, after \<open>nodev\<close> when the type has no
  device.
\<close>

definition demoListing :: string where
  "demoListing =
     ''nodev'' @ [CHR 0x09] @ ''sysfs'' @ [CHR 0x0A] @ [CHR 0x0A] @
     [CHR 0x09] @ ''ext4'' @ [CHR 0x0A]"

definition demoOpts :: "string \<rightharpoonup> uintptr" where
  "demoOpts =
     map_of [(''ro'', MS_RDONLY), (''nosuid'', 0x2), (''noexec'', 0x8), (''bind'', MS_BIND)]"

text \<open>No switch given and no argument.\<close>

definition noSwitches :: flagValues where
  "noSwitches =
     \<lparr>ro = False, fsType = [], bind = False, rbind = False,
      makeShared = False, makeSlave = False, makePrivate = False, makeUnbindable = False,
      makeRShared = False, makeRSlave = False, makeRPrivate = False, makeRUnbindable = False,
      options = [], args = []\<rparr>"

text \<open>
  A system without readable mount tables, where loop devices are free, every binding
  succeeds, and only \<open>ext4\<close> mounts when a type is given. The command line is taken to
  have the switches \<open>v\<close>, followed by the arguments \<open>argv\<close>.
\<close>

definition demoEnv :: "flagValues \<Rightarrow> env" where
  "demoEnv v =
     \<lparr>ReadFile = (\<lambda>h p. if p = ''/proc/filesystems'' then Inr demoListing
                        else Inl (Error ''no such file or directory'')),
      Parse = (\<lambda>argv. Inr (v\<lparr>args := argv\<rparr>)),
      FindDevice = (\<lambda>h. if FindDeviceCall \<in> set h then Inr ''/dev/loop1''
                         else Inr ''/dev/loop0''),
      SetFile = (\<lambda>h loopDevice filename. None),
      TryMount = (\<lambda>h dev p d f. None),
      Mount = (\<lambda>h dev p t d f. if t = ''ext4'' then None else Some (Error ''no such device'')),
      opts = demoOpts\<rparr>"

text \<open>The same system with one readable file \<open>p\<close> of contents \<open>b\<close> and no other.\<close>

definition tablesEnv :: "flagValues \<Rightarrow> string \<Rightarrow> string \<Rightarrow> env" where
  "tablesEnv v p b =
     (demoEnv v)\<lparr>ReadFile :=
       (\<lambda>h q. if q = p then Inr b else Inl (Error ''no such file or directory''))\<rparr>"

section \<open>Properties\<close>

subsection \<open>Auxiliary facts\<close>

lemma scanLines_eq:
  "scanLines originFS ls (rv, k) =
     Some (rv @ lastFields ls, k \<or> originFS \<in> set (lastFields ls))"
proof (induction ls arbitrary: rv k)
  case Nil
  show ?case by (simp add: lastFields_def)
next
  case (Cons f fs)
  show ?case
  proof (cases "Fields f = []")
    case True
    then show ?thesis using Cons.IH [of rv k] by (simp add: lastFields_def)
  next
    case False
    then have ix: "index (Fields f) (int (length (Fields f)) - 1) = Some (last (Fields f))"
      by (cases "Fields f" rule: rev_cases) (simp_all add: index_def)
    from False have lf: "lastFields (f # fs) = last (Fields f) # lastFields fs"
      by (simp add: lastFields_def)
    from False have neg: "\<not> int (length (Fields f)) - 1 < 0"
      by (cases "Fields f") simp_all
    have "scanLines originFS (f # fs) (rv, k) =
       scanLines originFS fs
         (rv @ [last (Fields f)], if last (Fields f) = originFS then True else k)"
      using neg by (simp add: Let_def ix)
    also have "\<dots> = Some ((rv @ [last (Fields f)]) @ lastFields fs,
        (if last (Fields f) = originFS then True else k) \<or> originFS \<in> set (lastFields fs))"
      by (rule Cons.IH)
    finally show ?thesis by (auto simp add: lf)
  qed
qed

lemma fieldsFrom_empty_iff:
  "fieldsFrom w cs = [] \<longleftrightarrow> w = [] \<and> (\<forall>c \<in> set cs. isSpace c)"
  by (induction cs arbitrary: w) auto

lemma fieldsFrom_words:
  "\<forall>c \<in> set w. \<not> isSpace c \<Longrightarrow>
   \<forall>x \<in> set (fieldsFrom w cs). x \<noteq> [] \<and> (\<forall>c \<in> set x. \<not> isSpace c)"
proof (induction cs arbitrary: w)
  case Nil
  then show ?case by simp
next
  case (Cons a cs)
  show ?case
  proof (cases "isSpace a")
    case True
    have rest: "\<forall>x \<in> set (fieldsFrom [] cs). x \<noteq> [] \<and> (\<forall>c \<in> set x. \<not> isSpace c)"
      by (rule Cons.IH) simp
    have eq: "set (fieldsFrom w (a # cs))
        \<subseteq> (if w = [] then {} else {w}) \<union> set (fieldsFrom [] cs)"
      using True by simp
    show ?thesis using rest Cons.prems eq by (cases "w = []") auto
  next
    case False
    have "\<forall>c \<in> set (w @ [a]). \<not> isSpace c" using False Cons.prems by simp
    then have "\<forall>x \<in> set (fieldsFrom (w @ [a]) cs).
        x \<noteq> [] \<and> (\<forall>c \<in> set x. \<not> isSpace c)"
      by (rule Cons.IH)
    moreover have "fieldsFrom w (a # cs) = fieldsFrom (w @ [a]) cs" using False by simp
    ultimately show ?thesis by metis
  qed
qed

lemma getSupportedFilesystem_read:
  "ReadFile e h ''/proc/filesystems'' = Inr fs \<Longrightarrow>
   getSupportedFilesystem e h originFS =
     (h @ [ReadFileCall ''/proc/filesystems''],
      Some (lastFields (Split fs (CHR 0x0A)),
            originFS \<in> set (lastFields (Split fs (CHR 0x0A))), None))"
  by (simp add: getSupportedFilesystem_def scanLines_eq)

lemma requests_append: "requests (xs @ ys) = requests xs @ requests ys"
  by (induction xs rule: requests.induct) simp_all

lemma requests_reads: "requests (map ReadFileCall ps) = []"
  by (induction ps) simp_all

lemma requests_listMounts: "requests (fst (listMounts e h ps)) = requests h"
  by (induction ps arbitrary: h) (simp_all add: requests_append split: sum.splits)

lemma loopSetup_cases:
  obtains (find_fails) err where "FindDevice e h = Inl err"
      "loopSetup e h filename = (h @ [FindDeviceCall], Inl err)"
  | (set_fails) loopDevice err where "FindDevice e h = Inr loopDevice"
      "SetFile e (h @ [FindDeviceCall]) loopDevice filename = Some err"
      "loopSetup e h filename = (h @ [FindDeviceCall, SetFileCall loopDevice filename], Inl err)"
  | (bound) loopDevice where "FindDevice e h = Inr loopDevice"
      "SetFile e (h @ [FindDeviceCall]) loopDevice filename = None"
      "loopSetup e h filename = (h @ [FindDeviceCall, SetFileCall loopDevice filename], Inr loopDevice)"
  by (cases "FindDevice e h"; cases "SetFile e (h @ [FindDeviceCall]) (projr (FindDevice e h)) filename")
     (auto simp add: loopSetup_def)

lemma orAll_Cons: "orAll (f # fs) = f OR orAll fs"
  by (simp add: orAll_def)

lemma orAll_Nil: "orAll [] = 0"
  by (simp add: orAll_def)

lemma requests_tokenLoop: "requests (fst (tokenLoop e os (h, dev, flags, data))) = requests h"
proof (induction os arbitrary: h dev flags data)
  case Nil
  show ?case by simp
next
  case (Cons t os)
  show ?case
  proof (cases "t = ''loop''")
    case True
    show ?thesis
      using Cons.IH
      by (cases rule: loopSetup_cases [of e h dev]) (simp_all add: True requests_append)
  next
    case False
    then show ?thesis using Cons.IH by (simp split: option.splits)
  qed
qed

lemma tokenLoop_result:
  "tokenLoop e os (h, dev, flags, data) = (h1, Some (dev1, flags1, data1)) \<Longrightarrow>
   flags1 = flags OR knownBits e os \<and> data1 = data @ unknownTokens e os"
proof (induction os arbitrary: h dev flags data)
  case Nil
  then show ?case by (simp add: knownBits_def unknownTokens_def orAll_Nil)
next
  case (Cons t os)
  show ?case
  proof (cases "t = ''loop''")
    case True
    show ?thesis
    proof (cases rule: loopSetup_cases [of e h dev])
      case (find_fails err)
      then show ?thesis using Cons.prems True by simp
    next
      case (set_fails loopDevice err)
      then show ?thesis using Cons.prems True by simp
    next
      case (bound loopDevice)
      then have "tokenLoop e os (h @ [FindDeviceCall, SetFileCall loopDevice dev], loopDevice, flags, data)
          = (h1, Some (dev1, flags1, data1))"
        using Cons.prems True by simp
      from Cons.IH [OF this] show ?thesis
        using True by (simp add: knownBits_def unknownTokens_def)
    qed
  next
    case False
    show ?thesis
    proof (cases "opts e t")
      case None
      then have "tokenLoop e os (h, dev, flags, data @ [t]) = (h1, Some (dev1, flags1, data1))"
        using Cons.prems False by simp
      from Cons.IH [OF this] show ?thesis
        using False None by (simp add: knownBits_def unknownTokens_def)
    next
      case (Some f)
      then have "tokenLoop e os (h, dev, flags OR f, data) = (h1, Some (dev1, flags1, data1))"
        using Cons.prems False by simp
      from Cons.IH [OF this] show ?thesis
        using False Some
        by (simp add: knownBits_def unknownTokens_def orAll_Cons or.assoc)
    qed
  qed
qed

lemma tokenLoop_without_loop:
  "''loop'' \<notin> set os \<Longrightarrow>
   tokenLoop e os (h, dev, flags, data) =
     (h, Some (dev, flags OR knownBits e os, data @ unknownTokens e os))"
proof (induction os arbitrary: flags data)
  case Nil
  show ?case by (simp add: knownBits_def unknownTokens_def orAll_Nil)
next
  case (Cons t os)
  then have t: "t \<noteq> ''loop''" and os: "''loop'' \<notin> set os" by auto
  show ?case
  proof (cases "opts e t")
    case None
    then show ?thesis using t Cons.IH [OF os]
      by (simp add: knownBits_def unknownTokens_def)
  next
    case (Some f)
    then show ?thesis using t Cons.IH [OF os]
      by (simp add: knownBits_def unknownTokens_def orAll_Cons or.assoc)
  qed
qed

lemma requests_informIfUnknownFS: "requests (fst (informIfUnknownFS e h t)) = requests h"
  by (cases "ReadFile e h ''/proc/filesystems''")
     (simp_all add: informIfUnknownFS_def getSupportedFilesystem_def scanLines_eq requests_append)

lemma requests_dispatch:
  "requests (fst (dispatch e v h dev p data flags)) =
     requests h @
     [\<lparr>device = dev, path = p,
       filesystemType = (if fsType v = [] then None else Some (fsType v)),
       dataOptions = Join data '','', flagsBitmask = flags\<rparr>]"
proof (cases "fsType v = []")
  case True
  then show ?thesis
    by (cases "TryMount e h dev p (Join data '','') flags")
       (simp_all add: dispatch_def requests_append)
next
  case False
  show ?thesis
  proof (cases "Mount e h dev p (fsType v) (Join data '','') flags")
    case None
    then show ?thesis using False by (simp add: dispatch_def requests_append)
  next
    case (Some err)
    obtain h1 ok where i: "informIfUnknownFS e
        (h @ [MountCall dev p (fsType v) (Join data '','') flags, LogPrint (errText err)])
        (fsType v) = (h1, ok)"
      by (cases "informIfUnknownFS e
        (h @ [MountCall dev p (fsType v) (Join data '','') flags, LogPrint (errText err)])
        (fsType v)")
    have "requests h1 = requests (h @ [MountCall dev p (fsType v) (Join data '','') flags, LogPrint (errText err)])"
      using requests_informIfUnknownFS [of e "h @ [MountCall dev p (fsType v) (Join data '','') flags, LogPrint (errText err)]" "fsType v"] i
      by simp
    then show ?thesis using False Some i by (cases ok) (simp_all add: dispatch_def requests_append)
  qed
qed

lemma index_first_two:
  "2 \<le> length a \<Longrightarrow> index a 0 = Some (a ! 0) \<and> index a 1 = Some (a ! 1)"
  by (auto simp add: index_def)

lemma main_after_parse:
  assumes "listMounts e [] mountTables = (h0, False)"
    and "Parse e argv = Inr v"
    and "2 \<le> length (args v)"
  shows "main e argv =
     (case tokenLoop e (options v) (h0, args v ! 0, 0, []) of
        (h1, None) \<Rightarrow> (h1, 1)
      | (h1, Some (dev1, flags, data)) \<Rightarrow>
          dispatch e v h1 dev1 (args v ! 1) data (switchFlags v flags))"
proof -
  have "\<not> length (args v) < 2" and "length (args v) > 1" using assms(3) by simp_all
  then show ?thesis
    using assms index_first_two [OF assms(3)] by (simp add: main_def Let_def)
qed

lemma main_reaches_dispatch:
  assumes "listMounts e [] mountTables = (h0, False)"
    and "Parse e argv = Inr v"
    and "2 \<le> length (args v)"
    and "tokenLoop e (options v) (h0, args v ! 0, 0, []) = (h1, Some (dev1, flags, data))"
  shows "main e argv = dispatch e v h1 dev1 (args v ! 1) data (switchFlags v flags)"
  using main_after_parse [OF assms(1-3)] assms(4) by simp

lemma main_request:
  assumes "r \<in> set (requests (fst (main e argv)))"
  shows "\<exists>v h0 h1 dev1 flags data.
     Parse e argv = Inr v \<and> listMounts e [] mountTables = (h0, False) \<and>
     2 \<le> length (args v) \<and>
     tokenLoop e (options v) (h0, args v ! 0, 0, []) = (h1, Some (dev1, flags, data)) \<and>
     main e argv = dispatch e v h1 dev1 (args v ! 1) data (switchFlags v flags) \<and>
     requests (fst (main e argv)) = [r] \<and>
     r = \<lparr>device = dev1, path = args v ! 1,
          filesystemType = (if fsType v = [] then None else Some (fsType v)),
          dataOptions = Join data '','', flagsBitmask = switchFlags v flags\<rparr>"
proof -
  obtain h0 listed where l: "listMounts e [] mountTables = (h0, listed)"
    by (cases "listMounts e [] mountTables")
  have h0: "requests h0 = []"
    using requests_listMounts [of e "[]" mountTables] l by simp
  have nl: "\<not> listed"
  proof
    assume listed
    then have "main e argv = (h0, 0)" using l by (simp add: main_def)
    then show False using assms h0 by simp
  qed
  obtain v where p: "Parse e argv = Inr v"
  proof (cases "Parse e argv")
    case (Inl code)
    then have "main e argv = (h0, code)" using l nl by (simp add: main_def)
    then show ?thesis using assms h0 by simp
  next
    case (Inr v)
    then show ?thesis using that by blast
  qed
  have len: "2 \<le> length (args v)"
  proof (rule ccontr)
    assume "\<not> 2 \<le> length (args v)"
    then have "main e argv = (h0 @ [Usage], 1)" using l nl p by (simp add: main_def)
    then show False using assms h0 by (simp add: requests_append)
  qed
  from l nl have l': "listMounts e [] mountTables = (h0, False)" by simp
  note m = main_after_parse [OF l' p len]
  obtain h1 res where t: "tokenLoop e (options v) (h0, args v ! 0, 0, []) = (h1, res)"
    by (cases "tokenLoop e (options v) (h0, args v ! 0, 0, [])")
  have h1: "requests h1 = []"
    using requests_tokenLoop [of e "options v" h0 "args v ! 0" 0 "[]"] t h0 by simp
  obtain dev1 flags data where res: "res = Some (dev1, flags, data)"
  proof (cases res)
    case None
    then have "main e argv = (h1, 1)" using m t by simp
    then show ?thesis using assms h1 by simp
  next
    case (Some x)
    then show ?thesis using that by (cases x) auto
  qed
  have d: "main e argv = dispatch e v h1 dev1 (args v ! 1) data (switchFlags v flags)"
    using m t res by simp
  have "requests (fst (main e argv)) =
      [\<lparr>device = dev1, path = args v ! 1,
        filesystemType = (if fsType v = [] then None else Some (fsType v)),
        dataOptions = Join data '','', flagsBitmask = switchFlags v flags\<rparr>]"
    by (simp add: d requests_dispatch h1)
  then show ?thesis using assms p l' len t res d by auto
qed

lemma bit_orAll: "bit (orAll fs) n \<longleftrightarrow> (\<exists>f \<in> set fs. bit f n)"
  by (induction fs) (auto simp add: orAll_Nil orAll_Cons bit_or_iff)

lemma orAll_set: "set fs = set gs \<Longrightarrow> orAll fs = orAll gs"
  by (rule bit_eqI) (simp add: bit_orAll)

lemma set_map_filter_opts:
  "set (List.map_filter g xs) = {y. \<exists>x \<in> set xs. g x = Some y}"
  by (induction xs) (auto simp add: map_filter_simps split: option.splits)

lemma map_filter_known:
  "List.map_filter g (filter (\<lambda>t. P t \<and> g t \<noteq> None) xs) = List.map_filter g (filter P xs)"
  by (induction xs) (auto simp add: map_filter_simps split: option.splits)

lemma dispatch_args: "dispatch e (v\<lparr>args := a\<rparr>) = dispatch e v"
  by (rule ext)+ (simp add: dispatch_def split: option.splits prod.splits bool.splits)

lemma switchFlags_args: "switchFlags (v\<lparr>args := a\<rparr>) = switchFlags v"
  by (rule ext) (simp add: switchFlags_def)

lemma listMounts_trace:
  "\<exists>rest. fst (listMounts e h ps) = h @ rest \<and> FindDeviceCall \<notin> set rest"
proof (induction ps arbitrary: h)
  case Nil
  show ?case by simp
next
  case (Cons p ps)
  show ?case
  proof (cases "ReadFile e h p")
    case (Inr b)
    then have "fst (listMounts e h (p # ps)) = h @ [ReadFileCall p, Print b]" by simp
    then show ?thesis by simp
  next
    case (Inl err)
    from Cons.IH [of "h @ [ReadFileCall p]"] obtain rest where
      "fst (listMounts e (h @ [ReadFileCall p]) ps) = (h @ [ReadFileCall p]) @ rest"
      "FindDeviceCall \<notin> set rest"
      by blast
    then have "fst (listMounts e h (p # ps)) = h @ (ReadFileCall p # rest) \<and>
        FindDeviceCall \<notin> set (ReadFileCall p # rest)"
      using Inl by simp
    then show ?thesis by blast
  qed
qed

lemma informIfUnknownFS_trace:
  "\<exists>rest. fst (informIfUnknownFS e h t) = h @ rest \<and> FindDeviceCall \<notin> set rest"
  by (cases "ReadFile e h ''/proc/filesystems''")
     (simp_all add: informIfUnknownFS_def getSupportedFilesystem_def scanLines_eq)

lemma dispatch_trace:
  "\<exists>rest. fst (dispatch e v h dev p data flags) = h @ rest \<and> FindDeviceCall \<notin> set rest"
proof (cases "fsType v = []")
  case True
  then show ?thesis
    by (cases "TryMount e h dev p (Join data '','') flags") (simp_all add: dispatch_def)
next
  case False
  show ?thesis
  proof (cases "Mount e h dev p (fsType v) (Join data '','') flags")
    case None
    then show ?thesis using False by (simp add: dispatch_def)
  next
    case (Some err)
    let ?h = "h @ [MountCall dev p (fsType v) (Join data '','') flags, LogPrint (errText err)]"
    obtain rest where r: "fst (informIfUnknownFS e ?h (fsType v)) = ?h @ rest"
      "FindDeviceCall \<notin> set rest"
      using informIfUnknownFS_trace [of e ?h "fsType v"] by blast
    have "fst (dispatch e v h dev p data flags) = fst (informIfUnknownFS e ?h (fsType v))"
      using False Some by (simp add: dispatch_def split: prod.splits bool.splits)
    then have "fst (dispatch e v h dev p data flags) =
        h @ ([MountCall dev p (fsType v) (Join data '','') flags, LogPrint (errText err)] @ rest) \<and>
        FindDeviceCall \<notin> set ([MountCall dev p (fsType v) (Join data '','') flags,
          LogPrint (errText err)] @ rest)"
      using r by simp
    then show ?thesis by blast
  qed
qed

lemma tokenLoop_binds:
  "tokenLoop e os (h, dev, flags, data) = (h1, Some (dev1, flags1, data1)) \<Longrightarrow>
   count_list h1 FindDeviceCall = count_list h FindDeviceCall + count_list os ''loop''"
proof (induction os arbitrary: h dev flags data)
  case Nil
  then show ?case by simp
next
  case (Cons t os)
  show ?case
  proof (cases "t = ''loop''")
    case True
    show ?thesis
    proof (cases rule: loopSetup_cases [of e h dev])
      case (find_fails err)
      then show ?thesis using Cons.prems True by simp
    next
      case (set_fails loopDevice err)
      then show ?thesis using Cons.prems True by simp
    next
      case (bound loopDevice)
      then have "tokenLoop e os (h @ [FindDeviceCall, SetFileCall loopDevice dev], loopDevice, flags, data)
          = (h1, Some (dev1, flags1, data1))"
        using Cons.prems True by simp
      from Cons.IH [OF this] show ?thesis using True by simp
    qed
  next
    case False
    show ?thesis
    proof (cases "opts e t")
      case None
      then have "tokenLoop e os (h, dev, flags, data @ [t]) = (h1, Some (dev1, flags1, data1))"
        using Cons.prems False by simp
      from Cons.IH [OF this] show ?thesis using False by simp
    next
      case (Some f)
      then have "tokenLoop e os (h, dev, flags OR f, data) = (h1, Some (dev1, flags1, data1))"
        using Cons.prems False by simp
      from Cons.IH [OF this] show ?thesis using False by simp
    qed
  qed
qed

lemma tokenLoop_last_bind:
  "tokenLoop e os (h, dev, flags, data) = (h1, Some (dev1, flags1, data1)) \<Longrightarrow>
   ''loop'' \<in> set os \<Longrightarrow>
   \<exists>hp filename. h1 = hp @ [FindDeviceCall, SetFileCall dev1 filename] \<and>
     FindDevice e hp = Inr dev1 \<and>
     SetFile e (hp @ [FindDeviceCall]) dev1 filename = None \<and>
     (count_list os ''loop'' = 1 \<longrightarrow> hp = h \<and> filename = dev)"
proof (induction os arbitrary: h dev flags data)
  case Nil
  then show ?case by simp
next
  case (Cons t os)
  show ?case
  proof (cases "t = ''loop''")
    case True
    show ?thesis
    proof (cases rule: loopSetup_cases [of e h dev])
      case (find_fails err)
      then show ?thesis using Cons.prems True by simp
    next
      case (set_fails loopDevice err)
      then show ?thesis using Cons.prems True by simp
    next
      case (bound loopDevice)
      then have rec: "tokenLoop e os (h @ [FindDeviceCall, SetFileCall loopDevice dev], loopDevice, flags, data)
          = (h1, Some (dev1, flags1, data1))"
        using Cons.prems True by simp
      show ?thesis
      proof (cases "''loop'' \<in> set os")
        case in_rest: True
        then have "count_list os ''loop'' \<noteq> 0" by (simp add: count_list_0_iff)
        then have "count_list (t # os) ''loop'' \<noteq> 1" using True by simp
        then show ?thesis using Cons.IH [OF rec in_rest] by blast
      next
        case False
        from tokenLoop_without_loop [OF False, of e "h @ [FindDeviceCall, SetFileCall loopDevice dev]"
            loopDevice flags data] rec
        have "h1 = h @ [FindDeviceCall, SetFileCall loopDevice dev]" "dev1 = loopDevice"
          by simp_all
        then show ?thesis using bound by blast
      qed
    qed
  next
    case False
    then have in_rest: "''loop'' \<in> set os" using Cons.prems(2) by simp
    have cnt: "count_list (t # os) ''loop'' = count_list os ''loop''" using False by simp
    show ?thesis
    proof (cases "opts e t")
      case None
      then have "tokenLoop e os (h, dev, flags, data @ [t]) = (h1, Some (dev1, flags1, data1))"
        using Cons.prems False by simp
      from Cons.IH [OF this in_rest] show ?thesis unfolding cnt .
    next
      case (Some f)
      then have "tokenLoop e os (h, dev, flags OR f, data) = (h1, Some (dev1, flags1, data1))"
        using Cons.prems False by simp
      from Cons.IH [OF this in_rest] show ?thesis unfolding cnt .
    qed
  qed
qed

lemma if_or: "(if c then x OR m else x) = x OR (if c then m else (0::uintptr))"
  by simp

lemma switchFlags_closed:
  "switchFlags v flags =
     flags OR (if ro v then MS_RDONLY else 0)
       OR (if bind v \<or> rbind v then MS_BIND else 0)
       OR (if makeShared v \<or> makeRShared v then MS_SHARED else 0)
       OR (if makeSlave v \<or> makeRSlave v then MS_SLAVE else 0)
       OR (if makePrivate v \<or> makeRPrivate v then MS_PRIVATE else 0)
       OR (if makeUnbindable v \<or> makeRUnbindable v then MS_UNBINDABLE else 0)
       OR (if rbind v \<or> makeRShared v \<or> makeRSlave v \<or> makeRPrivate v \<or> makeRUnbindable v
           then MS_BIND OR MS_REC else 0)"
  unfolding switchFlags_def Let_def if_or by (simp only: or.assoc)

lemma bit_if_zero: "bit (if c then m else (0::uintptr)) n \<longleftrightarrow> c \<and> bit m n"
  by simp

lemma bit_switchFlags:
  "bit (switchFlags v flags) n \<longleftrightarrow>
     bit flags n \<or> ro v \<and> bit MS_RDONLY n \<or>
     (bind v \<or> rbind v) \<and> bit MS_BIND n \<or>
     (makeShared v \<or> makeRShared v) \<and> bit MS_SHARED n \<or>
     (makeSlave v \<or> makeRSlave v) \<and> bit MS_SLAVE n \<or>
     (makePrivate v \<or> makeRPrivate v) \<and> bit MS_PRIVATE n \<or>
     (makeUnbindable v \<or> makeRUnbindable v) \<and> bit MS_UNBINDABLE n \<or>
     (rbind v \<or> makeRShared v \<or> makeRSlave v \<or> makeRPrivate v \<or> makeRUnbindable v) \<and>
       (bit MS_BIND n \<or> bit MS_REC n)"
  unfolding switchFlags_closed bit_or_iff bit_if_zero by blast

lemma informIfUnknownFS_read:
  "ReadFile e h ''/proc/filesystems'' = Inr fs \<Longrightarrow>
   informIfUnknownFS e h t =
     (h @ [ReadFileCall ''/proc/filesystems''] @
        (if t \<in> set (lastFields (Split fs (CHR 0x0A))) then []
         else [LogPrint (hint t (lastFields (Split fs (CHR 0x0A))))]), True)"
  by (simp add: informIfUnknownFS_def getSupportedFilesystem_read)

lemma informIfUnknownFS_unread:
  "ReadFile e h ''/proc/filesystems'' = Inl err \<Longrightarrow>
   informIfUnknownFS e h t = (h @ [ReadFileCall ''/proc/filesystems''], True)"
  by (simp add: informIfUnknownFS_def getSupportedFilesystem_def)

lemma dispatch_Mount_fails:
  "fsType v \<noteq> [] \<Longrightarrow> Mount e h dev p (fsType v) (Join data '','') flags = Some err \<Longrightarrow>
   informIfUnknownFS e
     (h @ [MountCall dev p (fsType v) (Join data '','') flags, LogPrint (errText err)])
     (fsType v) = (h', True) \<Longrightarrow>
   dispatch e v h dev p data flags = (h', 1)"
  by (simp add: dispatch_def)

subsection \<open>The Filesystem Support Prober\<close>

text \<open>
  C7. When the listing can be read, \<open>getSupportedFilesystem\<close> splits it into lines,
  splits each line into white-space separated fields and returns, in line order, the last
  field of every line that has a field; the queried type is reported as known if and only if
  it is the last field of some line. The error returned is nil.
\<close>

theorem prober_takes_last_field:
  assumes "ReadFile e h ''/proc/filesystems'' = Inr fs"
  shows "getSupportedFilesystem e h originFS =
     (h @ [ReadFileCall ''/proc/filesystems''],
      Some (map last (filter (\<lambda>n. n \<noteq> []) (map Fields (Split fs (CHR 0x0A)))),
            (\<exists>f \<in> set (Split fs (CHR 0x0A)). Fields f \<noteq> [] \<and> last (Fields f) = originFS),
            None))"
proof -
  have "originFS \<in> set (lastFields (Split fs (CHR 0x0A))) \<longleftrightarrow>
      (\<exists>f \<in> set (Split fs (CHR 0x0A)). Fields f \<noteq> [] \<and> last (Fields f) = originFS)"
    by (auto simp add: lastFields_def)
  then show ?thesis
    using getSupportedFilesystem_read [OF assms, of originFS] by (simp add: lastFields_def)
qed

text \<open>
  The demonstration listing has the lines \<open>nodev<TAB>sysfs\<close>, an empty line,
  \<open><TAB>ext4\<close> and the empty piece after the final line feed. \<open>nodev\<close> is a first
  field, not a last one, and is not reported as known.
\<close>

theorem prober_takes_last_field_witness:
  "ReadFile (demoEnv noSwitches) [] ''/proc/filesystems'' = Inr demoListing \<and>
   getSupportedFilesystem (demoEnv noSwitches) [] ''ext4'' =
     ([ReadFileCall ''/proc/filesystems''], Some ([''sysfs'', ''ext4''], True, None)) \<and>
   getSupportedFilesystem (demoEnv noSwitches) [] ''nodev'' =
     ([ReadFileCall ''/proc/filesystems''], Some ([''sysfs'', ''ext4''], False, None))"
proof -
  have r: "ReadFile (demoEnv noSwitches) [] ''/proc/filesystems'' = Inr demoListing"
    by (simp add: demoEnv_def)
  show ?thesis
    using r prober_takes_last_field [OF r, of "''ext4''"] prober_takes_last_field [OF r, of "''nodev''"]
    by (simp add: demoListing_def Fields_def isSpace_def)
qed

text \<open>
  C9. The indexing \<open>n[last]\<close> is guarded. A line has no field exactly when it consists of
  white space only (the empty piece after a final line feed included); the loop never
  panics; lines without a field can be removed from the input without changing what the
  loop computes; and when the listing is read the error returned is nil, the list has one
  entry for each line that has a field, and every entry is a non-empty word without white
  space.
\<close>

theorem prober_skips_blank_lines:
  "(Fields f = [] \<longleftrightarrow> (\<forall>c \<in> set f. isSpace c)) \<and>
   scanLines originFS ls (rv, k) \<noteq> None \<and>
   scanLines originFS ls (rv, k) = scanLines originFS (filter (\<lambda>l. Fields l \<noteq> []) ls) (rv, k) \<and>
   (ReadFile e h ''/proc/filesystems'' = Inr fs \<longrightarrow>
     (\<exists>returnValue known.
        getSupportedFilesystem e h originFS =
          (h @ [ReadFileCall ''/proc/filesystems''], Some (returnValue, known, None)) \<and>
        length returnValue = length (filter (\<lambda>l. Fields l \<noteq> []) (Split fs (CHR 0x0A))) \<and>
        (\<forall>x \<in> set returnValue. x \<noteq> [] \<and> (\<forall>c \<in> set x. \<not> isSpace c))))"
proof -
  have a: "Fields f = [] \<longleftrightarrow> (\<forall>c \<in> set f. isSpace c)"
    by (simp add: Fields_def fieldsFrom_empty_iff)
  have b: "scanLines originFS ls (rv, k) \<noteq> None" by (simp add: scanLines_eq)
  have c: "scanLines originFS ls (rv, k) =
      scanLines originFS (filter (\<lambda>l. Fields l \<noteq> []) ls) (rv, k)"
    by (simp add: scanLines_eq lastFields_def filter_map comp_def)
  have w: "\<forall>x \<in> set (Fields l). x \<noteq> [] \<and> (\<forall>c \<in> set x. \<not> isSpace c)" for l
    unfolding Fields_def by (rule fieldsFrom_words) simp
  have d: "\<forall>x \<in> set (lastFields ls'). x \<noteq> [] \<and> (\<forall>c \<in> set x. \<not> isSpace c)" for ls'
  proof
    fix x assume "x \<in> set (lastFields ls')"
    then obtain l where "Fields l \<noteq> []" "x = last (Fields l)"
      by (auto simp add: lastFields_def)
    then have "x \<in> set (Fields l)" by simp
    then show "x \<noteq> [] \<and> (\<forall>c \<in> set x. \<not> isSpace c)" using w by blast
  qed
  have len: "length (lastFields ls') = length (filter (\<lambda>l. Fields l \<noteq> []) ls')" for ls'
    by (simp add: lastFields_def filter_map comp_def)
  show ?thesis
    using a b c d len by (simp add: getSupportedFilesystem_read)
qed

theorem prober_skips_blank_lines_witness:
  "ReadFile (demoEnv noSwitches) [] ''/proc/filesystems'' = Inr demoListing \<and>
   Fields [] = [] \<and>
   Split demoListing (CHR 0x0A) = [''nodev'' @ [CHR 0x09] @ ''sysfs'', [], [CHR 0x09] @ ''ext4'', []] \<and>
   (\<exists>returnValue known.
      getSupportedFilesystem (demoEnv noSwitches) [] ''ext4'' =
        ([ReadFileCall ''/proc/filesystems''], Some (returnValue, known, None)) \<and>
      length returnValue = 2)"
proof -
  have r: "ReadFile (demoEnv noSwitches) [] ''/proc/filesystems'' = Inr demoListing"
    by (simp add: demoEnv_def)
  have "\<exists>returnValue known.
      getSupportedFilesystem (demoEnv noSwitches) [] ''ext4'' =
        ([] @ [ReadFileCall ''/proc/filesystems''], Some (returnValue, known, None)) \<and>
      length returnValue = length (filter (\<lambda>l. Fields l \<noteq> []) (Split demoListing (CHR 0x0A))) \<and>
      (\<forall>x \<in> set returnValue. x \<noteq> [] \<and> (\<forall>c \<in> set x. \<not> isSpace c))"
    using prober_skips_blank_lines [of "[]" "''ext4''" "[]" "[]" False "demoEnv noSwitches" "[]" demoListing] r
    by blast
  then show ?thesis using r by (auto simp add: demoListing_def Fields_def isSpace_def)
qed

subsection \<open>The listing of the mount tables\<close>

lemma listMounts_first:
  assumes "i < length ps"
    and "\<forall>j<i. isl (ReadFile e (h @ map ReadFileCall (take j ps)) (ps ! j))"
    and "ReadFile e (h @ map ReadFileCall (take i ps)) (ps ! i) = Inr b"
  shows "listMounts e h ps = (h @ map ReadFileCall (take (Suc i) ps) @ [Print b], True)"
  using assms
proof (induction ps arbitrary: h i)
  case Nil
  then show ?case by simp
next
  case (Cons p ps)
  show ?case
  proof (cases i)
    case 0
    then show ?thesis using Cons.prems by simp
  next
    case (Suc k)
    have "isl (ReadFile e (h @ map ReadFileCall (take 0 (p # ps))) ((p # ps) ! 0))"
      using Cons.prems(2) Suc by blast
    then obtain err where err: "ReadFile e h p = Inl err"
      by (cases "ReadFile e h p") simp_all
    have k: "k < length ps" using Cons.prems(1) Suc by simp
    have fails: "\<forall>j<k. isl (ReadFile e ((h @ [ReadFileCall p]) @ map ReadFileCall (take j ps)) (ps ! j))"
    proof (intro allI impI)
      fix j assume "j < k"
      then have "Suc j < i" using Suc by simp
      then have "isl (ReadFile e (h @ map ReadFileCall (take (Suc j) (p # ps))) ((p # ps) ! Suc j))"
        using Cons.prems(2) by blast
      then show "isl (ReadFile e ((h @ [ReadFileCall p]) @ map ReadFileCall (take j ps)) (ps ! j))"
        by simp
    qed
    have reads: "ReadFile e ((h @ [ReadFileCall p]) @ map ReadFileCall (take k ps)) (ps ! k) = Inr b"
      using Cons.prems(3) Suc by simp
    show ?thesis
      using Cons.IH [OF k fails reads] err Suc by simp
  qed
qed

text \<open>
  C1. The mount tables are tried in the order \<open>/proc/self/mounts\<close>, \<open>/proc/mounts\<close>,
  \<open>/etc/mtab\<close>, before the command line is looked at. When the first \<open>i\<close> of them
  cannot be read and the next one can, \<open>main\<close> prints the contents of that one and exits
  with status 0, whatever the command line \<open>argv\<close> is and whatever the flag package would
  make of it; the trace holds the reads and the print, and no mount attempt.
\<close>

theorem listing_short_circuit:
  assumes "i < 3"
    and "\<forall>j<i. isl (ReadFile e (map ReadFileCall (take j mountTables)) (mountTables ! j))"
    and "ReadFile e (map ReadFileCall (take i mountTables)) (mountTables ! i) = Inr b"
  shows "mountTables = [''/proc/self/mounts'', ''/proc/mounts'', ''/etc/mtab''] \<and>
     main e argv = (map ReadFileCall (take (Suc i) mountTables) @ [Print b], 0) \<and>
     requests (fst (main e argv)) = []"
proof -
  have len: "i < length mountTables" using assms(1) by (simp add: mountTables_def)
  have "listMounts e [] mountTables =
      ([] @ map ReadFileCall (take (Suc i) mountTables) @ [Print b], True)"
    by (rule listMounts_first [OF len]) (use assms in simp_all)
  then have m: "main e argv = (map ReadFileCall (take (Suc i) mountTables) @ [Print b], 0)"
    by (simp add: main_def)
  show ?thesis
    by (simp add: m requests_append requests_reads) (simp add: mountTables_def)
qed

text \<open>
  With no argument at all and a readable first table; and with two arguments, which would
  be a well-formed mount request, and only the last table readable.
\<close>

theorem listing_short_circuit_witness:
  "main (tablesEnv noSwitches ''/proc/self/mounts'' ''proc /proc proc rw 0 0'') [] =
     ([ReadFileCall ''/proc/self/mounts'', Print ''proc /proc proc rw 0 0''], 0) \<and>
   main (tablesEnv noSwitches ''/etc/mtab'' ''proc /proc proc rw 0 0'') [''/dev/sda1'', ''/mnt''] =
     ([ReadFileCall ''/proc/self/mounts'', ReadFileCall ''/proc/mounts'', ReadFileCall ''/etc/mtab'',
       Print ''proc /proc proc rw 0 0''], 0)"
proof -
  have a: "main (tablesEnv noSwitches ''/proc/self/mounts'' ''proc /proc proc rw 0 0'') [] =
     ([ReadFileCall ''/proc/self/mounts'', Print ''proc /proc proc rw 0 0''], 0)"
    using listing_short_circuit [of 0 "tablesEnv noSwitches ''/proc/self/mounts'' ''proc /proc proc rw 0 0''"
        "''proc /proc proc rw 0 0''" "[]"]
    by (simp add: tablesEnv_def mountTables_def)
  have i: "(2::nat) < 3" by simp
  have f: "\<forall>j<2. isl (ReadFile (tablesEnv noSwitches ''/etc/mtab'' ''proc /proc proc rw 0 0'')
            (map ReadFileCall (take j mountTables)) (mountTables ! j))"
    by (auto simp add: less_2_cases_iff tablesEnv_def mountTables_def)
  have r: "ReadFile (tablesEnv noSwitches ''/etc/mtab'' ''proc /proc proc rw 0 0'')
            (map ReadFileCall (take 2 mountTables)) (mountTables ! 2) = Inr ''proc /proc proc rw 0 0''"
    by (simp add: tablesEnv_def mountTables_def)
  have b: "main (tablesEnv noSwitches ''/etc/mtab'' ''proc /proc proc rw 0 0'') [''/dev/sda1'', ''/mnt''] =
     ([ReadFileCall ''/proc/self/mounts'', ReadFileCall ''/proc/mounts'', ReadFileCall ''/etc/mtab'',
       Print ''proc /proc proc rw 0 0''], 0)"
    using listing_short_circuit [OF i f r, of "[''/dev/sda1'', ''/mnt'']"]
    by (simp add: mountTables_def)
  show ?thesis using a b by simp
qed

subsection \<open>The option tokens\<close>

text \<open>
  C3. For a token sequence without \<open>loop\<close>, the token loop started with no flag set makes
  no call, keeps the device, and ends with the flags equal to the bitwise OR of the table
  entries of the tokens that are in the table (and with the other tokens as data). The
  flags are the same for every other sequence without \<open>loop\<close> that has the same set of
  tokens: neither the order of the tokens nor the repetition of a token changes them.
\<close>

theorem flags_are_or_of_table_entries:
  assumes "''loop'' \<notin> set os"
  shows "tokenLoop e os (h, dev, 0, []) =
       (h, Some (dev, orAll (List.map_filter (opts e) os), filter (\<lambda>t. opts e t = None) os)) \<and>
     (\<forall>os'. ''loop'' \<notin> set os' \<and> set os' = set os \<longrightarrow>
        (\<exists>data'. tokenLoop e os' (h, dev, 0, []) =
           (h, Some (dev, orAll (List.map_filter (opts e) os), data'))))"
proof -
  have nl: "filter (\<lambda>t. t \<noteq> ''loop'') xs = xs" if "''loop'' \<notin> set xs" for xs :: "string list"
    using that by (induction xs) auto
  have kb: "knownBits e xs = orAll (List.map_filter (opts e) xs)"
    if "''loop'' \<notin> set xs" for xs
    using nl [OF that] by (simp add: knownBits_def)
  have ut: "unknownTokens e xs = filter (\<lambda>t. opts e t = None) xs"
    if "''loop'' \<notin> set xs" for xs
    using that by (induction xs) (auto simp add: unknownTokens_def)
  have first: "tokenLoop e os (h, dev, 0, []) =
       (h, Some (dev, orAll (List.map_filter (opts e) os), filter (\<lambda>t. opts e t = None) os))"
    using tokenLoop_without_loop [OF assms, of e h dev 0 "[]"] kb [OF assms] ut [OF assms]
    by simp
  have second: "\<exists>data'. tokenLoop e os' (h, dev, 0, []) =
           (h, Some (dev, orAll (List.map_filter (opts e) os), data'))"
    if "''loop'' \<notin> set os'" and "set os' = set os" for os'
  proof -
    have "set (List.map_filter (opts e) os') = set (List.map_filter (opts e) os)"
      using that(2) by (simp add: set_map_filter_opts)
    then have "orAll (List.map_filter (opts e) os') = orAll (List.map_filter (opts e) os)"
      by (rule orAll_set)
    then show ?thesis
      using tokenLoop_without_loop [OF that(1), of e h dev 0 "[]"] kb [OF that(1)] by simp
  qed
  show ?thesis using first second by blast
qed

text \<open>
  In the demonstration table \<open>ro\<close> is 1 and \<open>noexec\<close> is 8. The sequence
  \<open>ro,noexec,uid=7,ro\<close> and the reordered \<open>noexec,ro,uid=7\<close> without the repetition both
  give 9.
\<close>

theorem flags_are_or_of_table_entries_witness:
  "''loop'' \<notin> set [''ro'', ''noexec'', ''uid=7'', ''ro''] \<and>
   tokenLoop (demoEnv noSwitches) [''ro'', ''noexec'', ''uid=7'', ''ro''] ([], ''/dev/sda1'', 0, []) =
     ([], Some (''/dev/sda1'', 9, [''uid=7''])) \<and>
   (\<exists>data'. tokenLoop (demoEnv noSwitches) [''noexec'', ''ro'', ''uid=7''] ([], ''/dev/sda1'', 0, []) =
     ([], Some (''/dev/sda1'', 9, data')))"
proof -
  have n: "''loop'' \<notin> set [''ro'', ''noexec'', ''uid=7'', ''ro'']" by simp
  have v: "orAll (List.map_filter (opts (demoEnv noSwitches)) [''ro'', ''noexec'', ''uid=7'', ''ro'']) = 9"
    by (simp add: demoEnv_def demoOpts_def map_filter_simps orAll_def MS_RDONLY_def)
  have f: "filter (\<lambda>t. opts (demoEnv noSwitches) t = None) [''ro'', ''noexec'', ''uid=7'', ''ro''] = [''uid=7'']"
    by (simp add: demoEnv_def demoOpts_def)
  have s: "''loop'' \<notin> set [''noexec'', ''ro'', ''uid=7''] \<and>
      set [''noexec'', ''ro'', ''uid=7''] = set [''ro'', ''noexec'', ''uid=7'', ''ro'']"
    by auto
  note t = flags_are_or_of_table_entries [OF n, of "demoEnv noSwitches" "[]" "''/dev/sda1''"]
  from t have a: "tokenLoop (demoEnv noSwitches) [''ro'', ''noexec'', ''uid=7'', ''ro''] ([], ''/dev/sda1'', 0, []) =
     ([], Some (''/dev/sda1'', 9, [''uid=7'']))"
    unfolding v f by blast
  from t s have b: "\<exists>data'. tokenLoop (demoEnv noSwitches) [''noexec'', ''ro'', ''uid=7''] ([], ''/dev/sda1'', 0, []) =
     ([], Some (''/dev/sda1'', 9, data'))"
    unfolding v by blast
  show ?thesis using n a b by blast
qed

text \<open>
  C4. Whenever \<open>main\<close> attempts a mount, the data string handed to the mount primitive is
  the comma-joined sequence of the tokens that are neither \<open>loop\<close> nor in the table, in
  their original order, and the flags are the switch bits applied to the OR of the table
  entries of the remaining tokens: a token outside the table adds nothing to the flags.
\<close>

theorem unknown_tokens_become_data:
  assumes "Parse e argv = Inr v"
    and "r \<in> set (requests (fst (main e argv)))"
  shows "dataOptions r = Join (filter (\<lambda>t. t \<noteq> ''loop'' \<and> opts e t = None) (options v)) '','' \<and>
     flagsBitmask r =
       switchFlags v
         (orAll (List.map_filter (opts e)
            (filter (\<lambda>t. t \<noteq> ''loop'' \<and> opts e t \<noteq> None) (options v))))"
proof -
  from main_request [OF assms(2)] assms(1)
  obtain h0 h1 dev1 flags data where
    t: "tokenLoop e (options v) (h0, args v ! 0, 0, []) = (h1, Some (dev1, flags, data))"
    and r: "r = \<lparr>device = dev1, path = args v ! 1,
          filesystemType = (if fsType v = [] then None else Some (fsType v)),
          dataOptions = Join data '','', flagsBitmask = switchFlags v flags\<rparr>"
    by auto
  from tokenLoop_result [OF t]
  have "flags = knownBits e (options v)" and "data = unknownTokens e (options v)" by simp_all
  moreover have "List.map_filter (opts e)
        (filter (\<lambda>t. t \<noteq> ''loop'' \<and> opts e t \<noteq> None) (options v)) =
      List.map_filter (opts e) (filter (\<lambda>t. t \<noteq> ''loop'') (options v))"
    by (rule map_filter_known)
  ultimately show ?thesis
    unfolding knownBits_def unknownTokens_def using r by (simp del: not_None_eq)
qed

text \<open>
  The command line \<open>-o uid=7,ro,loop,gid=8 disk.img /mnt\<close>: the data string is
  \<open>uid=7,gid=8\<close> and the flags are those of \<open>ro\<close>.
\<close>

theorem unknown_tokens_become_data_witness:
  "Parse (demoEnv (noSwitches\<lparr>options := [''uid=7'', ''ro'', ''loop'', ''gid=8'']\<rparr>))
       [''disk.img'', ''/mnt''] =
     Inr (noSwitches\<lparr>options := [''uid=7'', ''ro'', ''loop'', ''gid=8''],
                      args := [''disk.img'', ''/mnt'']\<rparr>) \<and>
   requests (fst (main (demoEnv (noSwitches\<lparr>options := [''uid=7'', ''ro'', ''loop'', ''gid=8'']\<rparr>))
       [''disk.img'', ''/mnt''])) =
     [\<lparr>device = ''/dev/loop0'', path = ''/mnt'', filesystemType = None,
       dataOptions = ''uid=7,gid=8'', flagsBitmask = 1\<rparr>]"
proof -
  let ?v = "noSwitches\<lparr>options := [''uid=7'', ''ro'', ''loop'', ''gid=8'']\<rparr>"
  let ?argv = "[''disk.img'', ''/mnt'']"
  have p: "Parse (demoEnv ?v) ?argv = Inr (?v\<lparr>args := ?argv\<rparr>)"
    by (simp add: demoEnv_def)
  have m: "requests (fst (main (demoEnv ?v) ?argv)) =
     [\<lparr>device = ''/dev/loop0'', path = ''/mnt'', filesystemType = None,
       dataOptions = ''uid=7,gid=8'', flagsBitmask = switchFlags (?v\<lparr>args := ?argv\<rparr>) 1\<rparr>]"
    by (simp add: main_def mountTables_def demoEnv_def demoOpts_def noSwitches_def index_def
        loopSetup_def dispatch_def MS_RDONLY_def)
  have s: "switchFlags (?v\<lparr>args := ?argv\<rparr>) 1 = 1"
    by (simp add: switchFlags_def noSwitches_def)
  have r: "\<lparr>device = ''/dev/loop0'', path = ''/mnt'', filesystemType = None,
       dataOptions = ''uid=7,gid=8'', flagsBitmask = 1\<rparr>
      \<in> set (requests (fst (main (demoEnv ?v) ?argv)))"
    by (simp add: m s)
  from unknown_tokens_become_data [OF p r]
  have "dataOptions \<lparr>device = ''/dev/loop0'', path = ''/mnt'', filesystemType = None,
       dataOptions = ''uid=7,gid=8'', flagsBitmask = 1\<rparr> =
      Join (filter (\<lambda>t. t \<noteq> ''loop'' \<and> opts (demoEnv ?v) t = None)
         (options (?v\<lparr>args := ?argv\<rparr>))) '',''"
    by blast
  then show ?thesis using p m s by simp
qed

subsection \<open>The positional arguments\<close>

text \<open>
  C10, as the code has it. For a command line with two or more positional arguments, every
  mount attempt has the second argument as its path, and the first argument as its device
  whenever no option token is \<open>loop\<close> (a \<open>loop\<close> token replaces the device, see C2). A
  command line with the same switches whose arguments agree on the first two makes \<open>main\<close>
  do exactly the same: the same calls with the same parameters and the same exit status. So
  no later argument affects the flags, data, type, device or path of the mount.
\<close>

theorem later_arguments_ignored:
  assumes "Parse e argv = Inr v"
    and "2 \<le> length (args v)"
  shows "(\<forall>r \<in> set (requests (fst (main e argv))).
        path r = args v ! 1 \<and> (''loop'' \<notin> set (options v) \<longrightarrow> device r = args v ! 0)) \<and>
     (\<forall>argv' a'. Parse e argv' = Inr (v\<lparr>args := a'\<rparr>) \<and> take 2 a' = take 2 (args v)
        \<longrightarrow> main e argv' = main e argv)"
proof -
  have first: "path r = args v ! 1 \<and> (''loop'' \<notin> set (options v) \<longrightarrow> device r = args v ! 0)"
    if "r \<in> set (requests (fst (main e argv)))" for r
  proof -
    from main_request [OF that] assms(1)
    obtain h0 h1 dev1 flags data where
      t: "tokenLoop e (options v) (h0, args v ! 0, 0, []) = (h1, Some (dev1, flags, data))"
      and r: "r = \<lparr>device = dev1, path = args v ! 1,
            filesystemType = (if fsType v = [] then None else Some (fsType v)),
            dataOptions = Join data '','', flagsBitmask = switchFlags v flags\<rparr>"
      by auto
    have "dev1 = args v ! 0" if "''loop'' \<notin> set (options v)"
      using tokenLoop_without_loop [OF that, of e h0 "args v ! 0" 0 "[]"] t by simp
    then show ?thesis using r by simp
  qed
  have second: "main e argv' = main e argv"
    if p: "Parse e argv' = Inr (v\<lparr>args := a'\<rparr>)" and a: "take 2 a' = take 2 (args v)"
    for argv' a'
  proof -
    obtain h0 listed where l: "listMounts e [] mountTables = (h0, listed)"
      by (cases "listMounts e [] mountTables")
    show ?thesis
    proof (cases listed)
      case True
      then show ?thesis using l by (simp add: main_def)
    next
      case False
      with l have l': "listMounts e [] mountTables = (h0, False)" by simp
      have "length (take 2 a') = 2" using a assms(2) by simp
      then have len: "2 \<le> length a'" by simp
      have "a' ! 0 = take 2 a' ! 0" and "a' ! 1 = take 2 a' ! 1" by simp_all
      then have same: "a' ! 0 = args v ! 0" "a' ! 1 = args v ! 1" using a by simp_all
      have len': "2 \<le> length (args (v\<lparr>args := a'\<rparr>))" using len by simp
      obtain h1 res where t: "tokenLoop e (options v) (h0, args v ! 0, 0, []) = (h1, res)"
        by (cases "tokenLoop e (options v) (h0, args v ! 0, 0, [])")
      show ?thesis
        using main_after_parse [OF l' p len'] main_after_parse [OF l' assms(1) assms(2)] same t
        by (cases res) (auto simp add: dispatch_args switchFlags_args)
    qed
  qed
  show ?thesis using first second by blast
qed

text \<open>Two extra arguments after \<open>/dev/sda1 /mnt\<close> change nothing.\<close>

theorem later_arguments_ignored_witness:
  "Parse (demoEnv (noSwitches\<lparr>options := [''ro'']\<rparr>)) [''/dev/sda1'', ''/mnt'', ''extra'', ''more''] =
     Inr (noSwitches\<lparr>options := [''ro''], args := [''/dev/sda1'', ''/mnt'', ''extra'', ''more'']\<rparr>) \<and>
   requests (fst (main (demoEnv (noSwitches\<lparr>options := [''ro'']\<rparr>))
       [''/dev/sda1'', ''/mnt'', ''extra'', ''more''])) =
     [\<lparr>device = ''/dev/sda1'', path = ''/mnt'', filesystemType = None,
       dataOptions = [], flagsBitmask = 1\<rparr>] \<and>
   main (demoEnv (noSwitches\<lparr>options := [''ro'']\<rparr>)) [''/dev/sda1'', ''/mnt''] =
   main (demoEnv (noSwitches\<lparr>options := [''ro'']\<rparr>)) [''/dev/sda1'', ''/mnt'', ''extra'', ''more'']"
proof -
  let ?v = "noSwitches\<lparr>options := [''ro'']\<rparr>"
  let ?argv = "[''/dev/sda1'', ''/mnt'', ''extra'', ''more'']"
  have p: "Parse (demoEnv ?v) ?argv = Inr (?v\<lparr>args := ?argv\<rparr>)"
    by (simp add: demoEnv_def)
  have len: "2 \<le> length (args (?v\<lparr>args := ?argv\<rparr>))" by simp
  have m: "requests (fst (main (demoEnv ?v) ?argv)) =
     [\<lparr>device = ''/dev/sda1'', path = ''/mnt'', filesystemType = None,
       dataOptions = [], flagsBitmask = 1\<rparr>]"
    by (simp add: main_def mountTables_def demoEnv_def demoOpts_def noSwitches_def index_def
        dispatch_def switchFlags_def MS_RDONLY_def)
  have p': "Parse (demoEnv ?v) [''/dev/sda1'', ''/mnt''] =
        Inr (?v\<lparr>args := ?argv\<rparr>\<lparr>args := [''/dev/sda1'', ''/mnt'']\<rparr>) \<and>
      take 2 [''/dev/sda1'', ''/mnt''] = take 2 (args (?v\<lparr>args := ?argv\<rparr>))"
    by (simp add: demoEnv_def)
  from later_arguments_ignored [OF p len] p'
  have "main (demoEnv ?v) [''/dev/sda1'', ''/mnt''] = main (demoEnv ?v) ?argv"
    by blast
  then show ?thesis using p m by simp
qed

text \<open>
  The claim as it is written gives the first argument as the device of every invocation
  that reaches the mount. With \<open>-o loop disk.img /mnt\<close> the device handed to the mount
  primitive is the loop device, not the first argument.
\<close>

theorem device_is_first_argument_counterexample:
  "main (demoEnv (noSwitches\<lparr>options := [''loop'']\<rparr>)) [''disk.img'', ''/mnt''] =
     ([ReadFileCall ''/proc/self/mounts'', ReadFileCall ''/proc/mounts'', ReadFileCall ''/etc/mtab'',
       FindDeviceCall, SetFileCall ''/dev/loop0'' ''disk.img'',
       TryMountCall ''/dev/loop0'' ''/mnt'' [] 0], 0) \<and>
   ''/dev/loop0'' \<noteq> [''disk.img'', ''/mnt''] ! 0"
  by (simp add: main_def mountTables_def demoEnv_def demoOpts_def noSwitches_def index_def
      loopSetup_def dispatch_def switchFlags_def)

subsection \<open>The loop token\<close>

text \<open>
  C2, as the code has it. Whenever \<open>main\<close> attempts a mount, it has made one loop-bind
  call (one search for a free loop device, by \<open>loopSetup\<close>) for each occurrence of the
  token \<open>loop\<close>. When \<open>loop\<close> occurs, the device handed to the mount primitive is the
  loop device that the last of these searches returned, the binding of that device
  succeeded, and no search follows it; when \<open>loop\<close> occurs exactly once, the file bound
  is the first argument.
\<close>

theorem loop_tokens_bind:
  assumes "Parse e argv = Inr v"
    and "r \<in> set (requests (fst (main e argv)))"
  shows "count_list (fst (main e argv)) FindDeviceCall = count_list (options v) ''loop'' \<and>
     (''loop'' \<in> set (options v) \<longrightarrow>
        (\<exists>hp filename rest.
           fst (main e argv) = hp @ [FindDeviceCall, SetFileCall (device r) filename] @ rest \<and>
           FindDevice e hp = Inr (device r) \<and>
           SetFile e (hp @ [FindDeviceCall]) (device r) filename = None \<and>
           FindDeviceCall \<notin> set rest \<and>
           (count_list (options v) ''loop'' = 1 \<longrightarrow> filename = args v ! 0)))"
proof -
  from main_request [OF assms(2)] assms(1)
  obtain h0 h1 dev1 flags data where
    l: "listMounts e [] mountTables = (h0, False)"
    and t: "tokenLoop e (options v) (h0, args v ! 0, 0, []) = (h1, Some (dev1, flags, data))"
    and d: "main e argv = dispatch e v h1 dev1 (args v ! 1) data (switchFlags v flags)"
    and r: "r = \<lparr>device = dev1, path = args v ! 1,
          filesystemType = (if fsType v = [] then None else Some (fsType v)),
          dataOptions = Join data '','', flagsBitmask = switchFlags v flags\<rparr>"
    by auto
  have h0: "count_list h0 FindDeviceCall = 0"
    using listMounts_trace [of e "[]" mountTables] l by (auto simp add: count_list_0_iff)
  obtain rest where rest: "fst (main e argv) = h1 @ rest" "FindDeviceCall \<notin> set rest"
    using dispatch_trace [of e v h1 dev1 "args v ! 1" data "switchFlags v flags"] d by auto
  have "count_list rest FindDeviceCall = 0" using rest(2) by (simp add: count_list_0_iff)
  then have cnt: "count_list (fst (main e argv)) FindDeviceCall = count_list (options v) ''loop''"
    using tokenLoop_binds [OF t] h0 rest(1) by simp
  have dev: "device r = dev1" using r by simp
  have last: "\<exists>hp filename rest.
           fst (main e argv) = hp @ [FindDeviceCall, SetFileCall (device r) filename] @ rest \<and>
           FindDevice e hp = Inr (device r) \<and>
           SetFile e (hp @ [FindDeviceCall]) (device r) filename = None \<and>
           FindDeviceCall \<notin> set rest \<and>
           (count_list (options v) ''loop'' = 1 \<longrightarrow> filename = args v ! 0)"
    if "''loop'' \<in> set (options v)"
  proof -
    from tokenLoop_last_bind [OF t that] obtain hp filename where
      "h1 = hp @ [FindDeviceCall, SetFileCall dev1 filename]"
      "FindDevice e hp = Inr dev1"
      "SetFile e (hp @ [FindDeviceCall]) dev1 filename = None"
      "count_list (options v) ''loop'' = 1 \<longrightarrow> hp = h0 \<and> filename = args v ! 0"
      by blast
    then have "fst (main e argv) = hp @ [FindDeviceCall, SetFileCall (device r) filename] @ rest \<and>
           FindDevice e hp = Inr (device r) \<and>
           SetFile e (hp @ [FindDeviceCall]) (device r) filename = None \<and>
           FindDeviceCall \<notin> set rest \<and>
           (count_list (options v) ''loop'' = 1 \<longrightarrow> filename = args v ! 0)"
      using rest dev by simp
    then show ?thesis by blast
  qed
  show ?thesis using cnt last by blast
qed

text \<open>The command line \<open>-o loop disk.img /mnt\<close>: one bind call, and the mount is on its result.\<close>

theorem loop_tokens_bind_witness:
  "Parse (demoEnv (noSwitches\<lparr>options := [''loop'']\<rparr>)) [''disk.img'', ''/mnt''] =
     Inr (noSwitches\<lparr>options := [''loop''], args := [''disk.img'', ''/mnt'']\<rparr>) \<and>
   requests (fst (main (demoEnv (noSwitches\<lparr>options := [''loop'']\<rparr>)) [''disk.img'', ''/mnt''])) =
     [\<lparr>device = ''/dev/loop0'', path = ''/mnt'', filesystemType = None,
       dataOptions = [], flagsBitmask = 0\<rparr>] \<and>
   count_list (fst (main (demoEnv (noSwitches\<lparr>options := [''loop'']\<rparr>)) [''disk.img'', ''/mnt'']))
     FindDeviceCall = 1"
proof -
  let ?v = "noSwitches\<lparr>options := [''loop'']\<rparr>"
  let ?argv = "[''disk.img'', ''/mnt'']"
  let ?r = "\<lparr>device = ''/dev/loop0'', path = ''/mnt'', filesystemType = None,
       dataOptions = [], flagsBitmask = 0\<rparr>"
  have p: "Parse (demoEnv ?v) ?argv = Inr (?v\<lparr>args := ?argv\<rparr>)"
    by (simp add: demoEnv_def)
  have m: "requests (fst (main (demoEnv ?v) ?argv)) = [?r]"
    by (simp add: main_def mountTables_def demoEnv_def demoOpts_def noSwitches_def index_def
        loopSetup_def dispatch_def switchFlags_def)
  have r: "?r \<in> set (requests (fst (main (demoEnv ?v) ?argv)))"
    by (simp add: m)
  from loop_tokens_bind [OF p r]
  have "count_list (fst (main (demoEnv ?v) ?argv)) FindDeviceCall =
      count_list (options (?v\<lparr>args := ?argv\<rparr>)) ''loop''"
    by blast
  then show ?thesis using p m by simp
qed

text \<open>
  The claim as it is written has exactly one bind call for every token sequence that
  contains \<open>loop\<close>. With \<open>-o loop,loop disk.img /mnt\<close> there are two: the second binds
  the loop device of the first.
\<close>

theorem exactly_one_bind_counterexample:
  "''loop'' \<in> set [''loop'', ''loop''] \<and>
   main (demoEnv (noSwitches\<lparr>options := [''loop'', ''loop'']\<rparr>)) [''disk.img'', ''/mnt''] =
     ([ReadFileCall ''/proc/self/mounts'', ReadFileCall ''/proc/mounts'', ReadFileCall ''/etc/mtab'',
       FindDeviceCall, SetFileCall ''/dev/loop0'' ''disk.img'',
       FindDeviceCall, SetFileCall ''/dev/loop1'' ''/dev/loop0'',
       TryMountCall ''/dev/loop1'' ''/mnt'' [] 0], 0) \<and>
   count_list (fst (main (demoEnv (noSwitches\<lparr>options := [''loop'', ''loop'']\<rparr>))
     [''disk.img'', ''/mnt''])) FindDeviceCall = 2"
  by (simp add: main_def mountTables_def demoEnv_def demoOpts_def noSwitches_def index_def
      loopSetup_def dispatch_def switchFlags_def)

subsection \<open>The boolean switches\<close>

text \<open>
  C5. When at least one of the recursive switches (\<open>-rbind\<close>, \<open>-make-rshared\<close>,
  \<open>-make-rslave\<close>, \<open>-make-rprivate\<close>, \<open>-make-runbindable\<close>) is set, the flags after
  lines 148-168 are the flags before them, OR the pair \<open>MS_BIND | MS_REC\<close>, OR the bits of
  the read-only and propagation switches: the pair enters once, however many recursive
  switches are set. So the result includes both bits of the pair and the propagation bit of
  each recursive switch that is set. The switches are applied to the flags that the token
  loop has produced: that is the bitmask of every mount attempt.
\<close>

theorem recursive_switches:
  assumes "rbind v \<or> makeRShared v \<or> makeRSlave v \<or> makeRPrivate v \<or> makeRUnbindable v"
  shows "switchFlags v flags =
       flags OR (MS_BIND OR MS_REC)
         OR (if ro v then MS_RDONLY else 0)
         OR (if makeShared v \<or> makeRShared v then MS_SHARED else 0)
         OR (if makeSlave v \<or> makeRSlave v then MS_SLAVE else 0)
         OR (if makePrivate v \<or> makeRPrivate v then MS_PRIVATE else 0)
         OR (if makeUnbindable v \<or> makeRUnbindable v then MS_UNBINDABLE else 0) \<and>
     switchFlags v flags AND (MS_BIND OR MS_REC) = MS_BIND OR MS_REC \<and>
     (makeRShared v \<longrightarrow> switchFlags v flags AND MS_SHARED = MS_SHARED) \<and>
     (makeRSlave v \<longrightarrow> switchFlags v flags AND MS_SLAVE = MS_SLAVE) \<and>
     (makeRPrivate v \<longrightarrow> switchFlags v flags AND MS_PRIVATE = MS_PRIVATE) \<and>
     (makeRUnbindable v \<longrightarrow> switchFlags v flags AND MS_UNBINDABLE = MS_UNBINDABLE) \<and>
     (\<forall>e argv r. Parse e argv = Inr v \<and> r \<in> set (requests (fst (main e argv))) \<longrightarrow>
        flagsBitmask r = switchFlags v (knownBits e (options v)))"
proof -
  have closed: "switchFlags v flags =
       flags OR (MS_BIND OR MS_REC)
         OR (if ro v then MS_RDONLY else 0)
         OR (if makeShared v \<or> makeRShared v then MS_SHARED else 0)
         OR (if makeSlave v \<or> makeRSlave v then MS_SLAVE else 0)
         OR (if makePrivate v \<or> makeRPrivate v then MS_PRIVATE else 0)
         OR (if makeUnbindable v \<or> makeRUnbindable v then MS_UNBINDABLE else 0)"
    by (rule bit_eqI) (use assms in \<open>auto simp add: bit_switchFlags bit_or_iff bit_if_zero\<close>)
  have pair: "switchFlags v flags AND (MS_BIND OR MS_REC) = MS_BIND OR MS_REC"
    by (rule bit_eqI) (use assms in \<open>auto simp add: bit_switchFlags bit_or_iff bit_and_iff\<close>)
  have shared: "switchFlags v flags AND MS_SHARED = MS_SHARED" if "makeRShared v"
    by (rule bit_eqI) (use that in \<open>auto simp add: bit_switchFlags bit_and_iff\<close>)
  have slave: "switchFlags v flags AND MS_SLAVE = MS_SLAVE" if "makeRSlave v"
    by (rule bit_eqI) (use that in \<open>auto simp add: bit_switchFlags bit_and_iff\<close>)
  have priv: "switchFlags v flags AND MS_PRIVATE = MS_PRIVATE" if "makeRPrivate v"
    by (rule bit_eqI) (use that in \<open>auto simp add: bit_switchFlags bit_and_iff\<close>)
  have unbindable: "switchFlags v flags AND MS_UNBINDABLE = MS_UNBINDABLE" if "makeRUnbindable v"
    by (rule bit_eqI) (use that in \<open>auto simp add: bit_switchFlags bit_and_iff\<close>)
  have after: "flagsBitmask r = switchFlags v (knownBits e (options v))"
    if "Parse e argv = Inr v" and "r \<in> set (requests (fst (main e argv)))" for e argv r
  proof -
    from main_request [OF that(2)] that(1)
    obtain h0 h1 dev1 fl data where
      t: "tokenLoop e (options v) (h0, args v ! 0, 0, []) = (h1, Some (dev1, fl, data))"
      and r: "r = \<lparr>device = dev1, path = args v ! 1,
            filesystemType = (if fsType v = [] then None else Some (fsType v)),
            dataOptions = Join data '','', flagsBitmask = switchFlags v fl\<rparr>"
      by auto
    from tokenLoop_result [OF t] have "fl = knownBits e (options v)" by simp
    then show ?thesis using r by simp
  qed
  show ?thesis using closed pair shared slave priv unbindable after by blast
qed

text \<open>
  \<open>-rbind\<close> alone gives \<open>0x5000\<close>, \<open>-make-rshared\<close> alone gives \<open>0x105000\<close>, and
  all five recursive switches together give \<open>0x1E5000\<close>, with the pair \<open>0x5000\<close> in it
  once. The command line \<open>-rbind -o ro /srv /mnt\<close> mounts with \<open>0x5001\<close>.
\<close>

theorem recursive_switches_witness:
  "switchFlags (noSwitches\<lparr>rbind := True\<rparr>) 0 = 0x5000 \<and>
   switchFlags (noSwitches\<lparr>makeRShared := True\<rparr>) 0 = 0x105000 \<and>
   switchFlags (noSwitches\<lparr>rbind := True, makeRShared := True, makeRSlave := True,
                            makeRPrivate := True, makeRUnbindable := True\<rparr>) 0 = 0x1E5000 \<and>
   requests (fst (main (demoEnv (noSwitches\<lparr>rbind := True, options := [''ro'']\<rparr>))
       [''/srv'', ''/mnt''])) =
     [\<lparr>device = ''/srv'', path = ''/mnt'', filesystemType = None,
       dataOptions = [], flagsBitmask = 0x5001\<rparr>]"
proof -
  let ?a = "noSwitches\<lparr>rbind := True\<rparr>"
  let ?b = "noSwitches\<lparr>makeRShared := True\<rparr>"
  let ?c = "noSwitches\<lparr>rbind := True, makeRShared := True, makeRSlave := True,
                       makeRPrivate := True, makeRUnbindable := True\<rparr>"
  let ?d = "noSwitches\<lparr>rbind := True, options := [''ro''], args := [''/srv'', ''/mnt'']\<rparr>"
  let ?e = "demoEnv (noSwitches\<lparr>rbind := True, options := [''ro'']\<rparr>)"
  have a: "rbind ?a \<or> makeRShared ?a \<or> makeRSlave ?a \<or> makeRPrivate ?a \<or> makeRUnbindable ?a"
    by simp
  have b: "rbind ?b \<or> makeRShared ?b \<or> makeRSlave ?b \<or> makeRPrivate ?b \<or> makeRUnbindable ?b"
    by simp
  have c: "rbind ?c \<or> makeRShared ?c \<or> makeRSlave ?c \<or> makeRPrivate ?c \<or> makeRUnbindable ?c"
    by simp
  have d: "rbind ?d \<or> makeRShared ?d \<or> makeRSlave ?d \<or> makeRPrivate ?d \<or> makeRUnbindable ?d"
    by simp
  have abc: "switchFlags ?a 0 = 0x5000 \<and> switchFlags ?b 0 = 0x105000 \<and>
      switchFlags ?c 0 = 0x1E5000"
    using recursive_switches [OF a, of 0] recursive_switches [OF b, of 0]
      recursive_switches [OF c, of 0]
    by (simp add: noSwitches_def MS_BIND_def MS_REC_def MS_SHARED_def MS_SLAVE_def
        MS_PRIVATE_def MS_UNBINDABLE_def)
  have p: "Parse ?e [''/srv'', ''/mnt''] = Inr ?d"
    by (simp add: demoEnv_def)
  have m: "requests (fst (main ?e [''/srv'', ''/mnt''])) =
     [\<lparr>device = ''/srv'', path = ''/mnt'', filesystemType = None,
       dataOptions = [], flagsBitmask = 0x5001\<rparr>]"
    by (simp add: main_def mountTables_def demoEnv_def demoOpts_def noSwitches_def index_def
        dispatch_def switchFlags_def MS_RDONLY_def MS_BIND_def MS_REC_def)
  have k: "knownBits ?e [''ro''] = 1"
    by (simp add: knownBits_def orAll_def demoEnv_def demoOpts_def map_filter_simps
        MS_RDONLY_def)
  let ?r = "\<lparr>device = ''/srv'', path = ''/mnt'', filesystemType = None,
       dataOptions = [], flagsBitmask = 0x5001\<rparr>"
  have after: "\<forall>e argv r. Parse e argv = Inr ?d \<and> r \<in> set (requests (fst (main e argv))) \<longrightarrow>
      flagsBitmask r = switchFlags ?d (knownBits e (options ?d))"
    using recursive_switches [OF d, of 0] by blast
  have r: "?r \<in> set (requests (fst (main ?e [''/srv'', ''/mnt''])))"
    by (simp add: m)
  have "flagsBitmask ?r = switchFlags ?d (knownBits ?e (options ?d))"
    using after p r by blast
  then have "switchFlags ?d 1 = 0x5001" by (simp add: k)
  then show ?thesis using abc m by simp
qed

subsection \<open>A failed mount with an explicit type\<close>

text \<open>
  C6. Take an invocation that gets past the listing of the mount tables, has two or more
  arguments, completes the token loop and has a type from \<open>-t\<close>. When \<open>mount.Mount\<close>
  fails, \<open>main\<close> logs the error and reads the supported-filesystems listing. When the
  listing is read, it logs the hint with the known types exactly when the type is not the
  last field of a line of the listing. The exit status is 1 in every case: with the hint,
  without it, and when the listing cannot be read.
\<close>

theorem explicit_type_failure:
  assumes "listMounts e [] mountTables = (h0, False)"
    and "Parse e argv = Inr v"
    and "2 \<le> length (args v)"
    and "tokenLoop e (options v) (h0, args v ! 0, 0, []) = (h1, Some (dev1, flags, data))"
    and "fsType v \<noteq> []"
    and "Mount e h1 dev1 (args v ! 1) (fsType v) (Join data '','') (switchFlags v flags) = Some err"
  shows "main e argv =
     (h1 @ [MountCall dev1 (args v ! 1) (fsType v) (Join data '','') (switchFlags v flags),
            LogPrint (errText err), ReadFileCall ''/proc/filesystems''] @
        (case ReadFile e
                (h1 @ [MountCall dev1 (args v ! 1) (fsType v) (Join data '','')
                         (switchFlags v flags),
                       LogPrint (errText err)])
                ''/proc/filesystems'' of
           Inl readErr \<Rightarrow> []
         | Inr fs \<Rightarrow>
             if fsType v \<in> set (lastFields (Split fs (CHR 0x0A))) then []
             else [LogPrint (hint (fsType v) (lastFields (Split fs (CHR 0x0A))))]),
      1)"
proof -
  let ?h = "h1 @ [MountCall dev1 (args v ! 1) (fsType v) (Join data '','') (switchFlags v flags),
                  LogPrint (errText err)]"
  have m: "main e argv = dispatch e v h1 dev1 (args v ! 1) data (switchFlags v flags)"
    by (rule main_reaches_dispatch [OF assms(1-4)])
  show ?thesis
  proof (cases "ReadFile e ?h ''/proc/filesystems''")
    case (Inl readErr)
    have "dispatch e v h1 dev1 (args v ! 1) data (switchFlags v flags) =
        (?h @ [ReadFileCall ''/proc/filesystems''], 1)"
      by (rule dispatch_Mount_fails [OF assms(5) assms(6)])
         (rule informIfUnknownFS_unread [OF Inl])
    then show ?thesis using m Inl by simp
  next
    case (Inr fs)
    have "dispatch e v h1 dev1 (args v ! 1) data (switchFlags v flags) =
        (?h @ [ReadFileCall ''/proc/filesystems''] @
           (if fsType v \<in> set (lastFields (Split fs (CHR 0x0A))) then []
            else [LogPrint (hint (fsType v) (lastFields (Split fs (CHR 0x0A))))]),
         1)"
      by (rule dispatch_Mount_fails [OF assms(5) assms(6)])
         (rule informIfUnknownFS_read [OF Inr])
    then show ?thesis using m Inr by simp
  qed
qed

text \<open>
  The command line \<open>-t ext9 /dev/sda1 /mnt\<close> where the listing has \<open>sysfs\<close> and
  \<open>ext4\<close>.
\<close>

theorem explicit_type_failure_witness:
  "main (demoEnv (noSwitches\<lparr>fsType := ''ext9''\<rparr>)) [''/dev/sda1'', ''/mnt''] =
     ([ReadFileCall ''/proc/self/mounts'', ReadFileCall ''/proc/mounts'', ReadFileCall ''/etc/mtab'',
       MountCall ''/dev/sda1'' ''/mnt'' ''ext9'' [] 0, LogPrint ''no such device'',
       ReadFileCall ''/proc/filesystems'',
       LogPrint ''Hint: unknown filesystem ext9. Known are: [sysfs ext4]''], 1)"
proof -
  let ?v = "noSwitches\<lparr>fsType := ''ext9'', args := [''/dev/sda1'', ''/mnt'']\<rparr>"
  let ?e = "demoEnv (noSwitches\<lparr>fsType := ''ext9''\<rparr>)"
  let ?h0 = "[ReadFileCall ''/proc/self/mounts'', ReadFileCall ''/proc/mounts'', ReadFileCall ''/etc/mtab'']"
  have l: "listMounts ?e [] mountTables = (?h0, False)"
    by (simp add: mountTables_def demoEnv_def tablesEnv_def)
  have p: "Parse ?e [''/dev/sda1'', ''/mnt''] = Inr ?v"
    by (simp add: demoEnv_def tablesEnv_def)
  have n: "2 \<le> length (args ?v)" by simp
  have t: "tokenLoop ?e (options ?v) (?h0, args ?v ! 0, 0, []) = (?h0, Some (''/dev/sda1'', 0, []))"
    by (simp add: noSwitches_def)
  have f: "fsType ?v \<noteq> []" by simp
  have s: "switchFlags ?v 0 = 0" by (simp add: switchFlags_def noSwitches_def)
  have m: "Mount ?e ?h0 ''/dev/sda1'' (args ?v ! 1) (fsType ?v) (Join [] '','') (switchFlags ?v 0) =
      Some (Error ''no such device'')"
    by (simp add: demoEnv_def tablesEnv_def)
  have r: "ReadFile ?e
      (?h0 @ [MountCall ''/dev/sda1'' (args ?v ! 1) (fsType ?v) (Join [] '','') (switchFlags ?v 0),
              LogPrint (errText (Error ''no such device''))])
      ''/proc/filesystems'' = Inr demoListing"
    by (simp add: demoEnv_def tablesEnv_def)
  show ?thesis
    using explicit_type_failure [OF l p n t f m] r
    by (simp add: s lastFields_def demoListing_def Fields_def isSpace_def hint_def)
qed

text \<open>
  C8. On the same path, when the supported-filesystems listing cannot be read,
  \<open>informIfUnknownFS\<close> returns after the read and logs nothing. The trace of \<open>main\<close>
  ends with the mount call, the report of the mount error and the failed read, and the exit
  status is 1: the failed read is reported nowhere and changes neither the report nor the
  status.
\<close>

theorem probe_failure_swallowed:
  assumes "listMounts e [] mountTables = (h0, False)"
    and "Parse e argv = Inr v"
    and "2 \<le> length (args v)"
    and "tokenLoop e (options v) (h0, args v ! 0, 0, []) = (h1, Some (dev1, flags, data))"
    and "fsType v \<noteq> []"
    and "Mount e h1 dev1 (args v ! 1) (fsType v) (Join data '','') (switchFlags v flags) = Some err"
    and "ReadFile e
           (h1 @ [MountCall dev1 (args v ! 1) (fsType v) (Join data '','') (switchFlags v flags),
                  LogPrint (errText err)])
           ''/proc/filesystems'' = Inl readErr"
  shows "informIfUnknownFS e
           (h1 @ [MountCall dev1 (args v ! 1) (fsType v) (Join data '','') (switchFlags v flags),
                  LogPrint (errText err)])
           (fsType v) =
         (h1 @ [MountCall dev1 (args v ! 1) (fsType v) (Join data '','') (switchFlags v flags),
                LogPrint (errText err), ReadFileCall ''/proc/filesystems''], True) \<and>
     main e argv =
       (h1 @ [MountCall dev1 (args v ! 1) (fsType v) (Join data '','') (switchFlags v flags),
              LogPrint (errText err), ReadFileCall ''/proc/filesystems''], 1)"
proof -
  let ?h = "h1 @ [MountCall dev1 (args v ! 1) (fsType v) (Join data '','') (switchFlags v flags),
                  LogPrint (errText err)]"
  have i: "informIfUnknownFS e ?h (fsType v) = (?h @ [ReadFileCall ''/proc/filesystems''], True)"
    by (rule informIfUnknownFS_unread [OF assms(7)])
  have "main e argv = dispatch e v h1 dev1 (args v ! 1) data (switchFlags v flags)"
    by (rule main_reaches_dispatch [OF assms(1-4)])
  also have "\<dots> = (?h @ [ReadFileCall ''/proc/filesystems''], 1)"
    by (rule dispatch_Mount_fails [OF assms(5) assms(6) i])
  finally show ?thesis using i by simp
qed

text \<open>The command line \<open>-t ext9 /dev/sda1 /mnt\<close> on a system where no file can be read.\<close>

theorem probe_failure_swallowed_witness:
  "main (tablesEnv (noSwitches\<lparr>fsType := ''ext9''\<rparr>) ''/nowhere'' []) [''/dev/sda1'', ''/mnt''] =
     ([ReadFileCall ''/proc/self/mounts'', ReadFileCall ''/proc/mounts'', ReadFileCall ''/etc/mtab'',
       MountCall ''/dev/sda1'' ''/mnt'' ''ext9'' [] 0, LogPrint ''no such device'',
       ReadFileCall ''/proc/filesystems''], 1)"
proof -
  let ?v = "noSwitches\<lparr>fsType := ''ext9'', args := [''/dev/sda1'', ''/mnt'']\<rparr>"
  let ?e = "tablesEnv (noSwitches\<lparr>fsType := ''ext9''\<rparr>) ''/nowhere'' []"
  let ?h0 = "[ReadFileCall ''/proc/self/mounts'', ReadFileCall ''/proc/mounts'', ReadFileCall ''/etc/mtab'']"
  have l: "listMounts ?e [] mountTables = (?h0, False)"
    by (simp add: mountTables_def demoEnv_def tablesEnv_def)
  have p: "Parse ?e [''/dev/sda1'', ''/mnt''] = Inr ?v"
    by (simp add: demoEnv_def tablesEnv_def)
  have n: "2 \<le> length (args ?v)" by simp
  have t: "tokenLoop ?e (options ?v) (?h0, args ?v ! 0, 0, []) = (?h0, Some (''/dev/sda1'', 0, []))"
    by (simp add: noSwitches_def)
  have f: "fsType ?v \<noteq> []" by simp
  have s: "switchFlags ?v 0 = 0" by (simp add: switchFlags_def noSwitches_def)
  have m: "Mount ?e ?h0 ''/dev/sda1'' (args ?v ! 1) (fsType ?v) (Join [] '','') (switchFlags ?v 0) =
      Some (Error ''no such device'')"
    by (simp add: demoEnv_def tablesEnv_def)
  have r: "ReadFile ?e
      (?h0 @ [MountCall ''/dev/sda1'' (args ?v ! 1) (fsType ?v) (Join [] '','') (switchFlags ?v 0),
              LogPrint (errText (Error ''no such device''))])
      ''/proc/filesystems'' = Inl (Error ''no such file or directory'')"
    by (simp add: demoEnv_def tablesEnv_def)
  show ?thesis
    using probe_failure_swallowed [OF l p n t f m r]
    by (simp add: s )
qed

end
